theory Spec2Isabelle
  imports Complex_Main "HOL-Library.Multiset" "HOL-Library.AList"
    "HOL-Library.List_Lexorder" "HOL-Library.Char_ord" "HOL-Library.Product_Lexorder"
begin

section \<open>Values, errors and tables\<close>

text \<open>
  The module \<open>NGS/HiCTools.py\<close> works on pandas data frames and numpy arrays.  The
  embedding keeps the parts of those libraries the functions rely on:
  a cell of a pairs table is an integer, a string or the missing value; a data frame is
  its list of column names with its rows; a Python dictionary is an association list in
  insertion order (its keys are distinct); every exception the interpreter would raise
  is a value of \<open>py_error\<close>.
\<close>

datatype py_error = KeyError | ValueError | TypeError | IndexError

datatype cell = CInt int | CStr string | CNaN

record frame =
  columns :: "string list"
  rows :: "cell list list"

definition nrows :: "frame \<Rightarrow> nat" where
  "nrows f = length (rows f)"

text \<open>Position of a column name, \<open>None\<close> when the frame has no such column.\<close>

fun col_index :: "string list \<Rightarrow> string \<Rightarrow> nat option" where
  "col_index [] c = None"
| "col_index (x # xs) c = (if x = c then Some 0 else map_option Suc (col_index xs c))"

text \<open>Sequencing of steps that may raise: the first exception ends the computation.\<close>

definition py_bind :: "py_error + 'a \<Rightarrow> ('a \<Rightarrow> py_error + 'b) \<Rightarrow> py_error + 'b" where
  "py_bind m f = (case m of Inl e \<Rightarrow> Inl e | Inr v \<Rightarrow> f v)"

text \<open>\<open>d[k]\<close> on a dictionary.\<close>

definition getitem :: "(string \<times> 'v) list \<Rightarrow> string \<Rightarrow> py_error + 'v" where
  "getitem d k = (case map_of d k of None \<Rightarrow> Inl KeyError | Some v \<Rightarrow> Inr v)"

text \<open>\<open>df[c]\<close>: the column as a series, \<open>KeyError\<close> when it is absent.\<close>

definition getcol :: "frame \<Rightarrow> string \<Rightarrow> py_error + cell list" where
  "getcol f c = (case col_index (columns f) c of
       None \<Rightarrow> Inl KeyError
     | Some j \<Rightarrow> Inr (map (\<lambda>r. r ! j) (rows f)))"

text \<open>
  \<open>df[c] = v\<close> with a scalar \<open>v\<close>: an existing column is overwritten where it stands,
  a new one is appended as the last column.
\<close>

definition setcol :: "frame \<Rightarrow> string \<Rightarrow> cell \<Rightarrow> frame" where
  "setcol f c v = (case col_index (columns f) c of
       Some j \<Rightarrow> f\<lparr>rows := map (\<lambda>r. r[j := v]) (rows f)\<rparr>
     | None \<Rightarrow> f\<lparr>columns := columns f @ [c], rows := map (\<lambda>r. r @ [v]) (rows f)\<rparr>)"

text \<open>
  \<open>pd.concat((f, g))\<close>: the columns are those of \<open>f\<close> followed by the new ones of
  \<open>g\<close>; the rows of \<open>f\<close> come first, and a cell of a column a frame lacks is missing.
\<close>

definition reindex_row :: "string list \<Rightarrow> string list \<Rightarrow> cell list \<Rightarrow> cell list" where
  "reindex_row cs own r =
     map (\<lambda>c. case col_index own c of None \<Rightarrow> CNaN | Some j \<Rightarrow> r ! j) cs"

definition pd_concat :: "frame \<Rightarrow> frame \<Rightarrow> frame" where
  "pd_concat f g =
     (let cs = columns f @ filter (\<lambda>c. c \<notin> set (columns f)) (columns g)
      in \<lparr>columns = cs,
          rows = map (reindex_row cs (columns f)) (rows f)
               @ map (reindex_row cs (columns g)) (rows g)\<rparr>)"

text \<open>\<open>df.loc[mask, :]\<close> with a boolean series on the frame's own index.\<close>

definition loc_mask :: "frame \<Rightarrow> bool list \<Rightarrow> frame" where
  "loc_mask f msk = f\<lparr>rows := map fst (filter snd (zip (rows f) msk))\<rparr>"

text \<open>
  Elementwise arithmetic and comparison of series.  A missing operand gives a missing
  difference, and a missing value is greater than nothing; a string operand raises.
\<close>

fun cell_sub :: "cell \<Rightarrow> cell \<Rightarrow> py_error + cell" where
  "cell_sub (CInt a) (CInt b) = Inr (CInt (a - b))"
| "cell_sub (CStr s) y = Inl TypeError"
| "cell_sub (CInt a) (CStr s) = Inl TypeError"
| "cell_sub CNaN (CStr s) = Inl TypeError"
| "cell_sub (CInt a) CNaN = Inr CNaN"
| "cell_sub CNaN (CInt b) = Inr CNaN"
| "cell_sub CNaN CNaN = Inr CNaN"

fun cell_gt :: "cell \<Rightarrow> int \<Rightarrow> py_error + bool" where
  "cell_gt (CInt a) d = Inr (a > d)"
| "cell_gt (CStr s) d = Inl TypeError"
| "cell_gt CNaN d = Inr False"

text \<open>A list of results is the list of the values, or the first error.\<close>

fun collect :: "(py_error + 'a) list \<Rightarrow> py_error + 'a list" where
  "collect [] = Inr []"
| "collect (Inl e # xs) = Inl e"
| "collect (Inr v # xs) = (case collect xs of Inl e \<Rightarrow> Inl e | Inr vs \<Rightarrow> Inr (v # vs))"

definition series_sub :: "cell list \<Rightarrow> cell list \<Rightarrow> py_error + cell list" where
  "series_sub xs ys = collect (map (\<lambda>(x, y). cell_sub x y) (zip xs ys))"

definition series_gt :: "cell list \<Rightarrow> int \<Rightarrow> py_error + bool list" where
  "series_gt xs d = collect (map (\<lambda>x. cell_gt x d) xs)"

text \<open>
  \<open>df.sample(n=n)\<close>: \<open>n\<close> rows drawn without replacement, \<open>ValueError\<close> when the
  frame has fewer; no row drawn from an empty frame is the empty frame.  The generator
  is a stream of naturals \<open>rnd\<close> read from position \<open>k\<close> on: each row is picked
  among those not drawn yet.
\<close>

fun draw :: "(nat \<Rightarrow> nat) \<Rightarrow> nat \<Rightarrow> 'a list \<Rightarrow> nat \<Rightarrow> 'a list" where
  "draw rnd k xs 0 = []"
| "draw rnd k [] (Suc n) = []"
| "draw rnd k (x # xs) (Suc n) =
     (let i = rnd k mod length (x # xs)
      in ((x # xs) ! i) # draw rnd (Suc k) (take i (x # xs) @ drop (Suc i) (x # xs)) n)"

definition sample :: "(nat \<Rightarrow> nat) \<Rightarrow> nat \<Rightarrow> frame \<Rightarrow> nat \<Rightarrow> py_error + frame" where
  "sample rnd k f n =
     (if n > nrows f then Inl ValueError else Inr (f\<lparr>rows := draw rnd k (rows f) n\<rparr>))"

section \<open>downSamplePairs\<close>

type_synonym cisTransPairs = "(string \<times> frame) list"

type_synonym pairsSamples = "(string \<times> cisTransPairs) list"

text \<open>
  The filter of line 231: the rows of the combined table whose \<open>pos2 - pos1\<close> is
  greater than \<open>Distance\<close>.
\<close>

definition filterDistance :: "frame \<Rightarrow> int \<Rightarrow> py_error + frame" where
  "filterDistance allT Distance =
     py_bind (getcol allT ''pos2'') (\<lambda>p2.
     py_bind (getcol allT ''pos1'') (\<lambda>p1.
     py_bind (series_sub p2 p1) (\<lambda>d.
     py_bind (series_gt d Distance) (\<lambda>msk.
     Inr (loc_mask allT msk)))))"

text \<open>
  The body of the first loop (lines 223 to 231) for one sample.  \<open>cisTemp\<close> and
  \<open>transTemp\<close> are the tables of the input dictionary themselves, not copies, so
  setting their \<open>rType\<close> column changes the input: the function returns the sample's
  dictionary as the loop leaves it, with the filtered combined table or the error.  The
  tables of the input dictionary are taken to be distinct objects.
\<close>

definition tagSample :: "cisTransPairs \<Rightarrow> int \<Rightarrow> cisTransPairs \<times> (py_error + frame)" where
  "tagSample inner Distance =
     (case getitem inner ''cis'' of
        Inl e \<Rightarrow> (inner, Inl e)
      | Inr cisTemp0 \<Rightarrow>
          (let cisTemp = setcol cisTemp0 ''rType'' (CStr ''cis'');
               inner1 = AList.update ''cis'' cisTemp inner
           in (case getitem inner1 ''trans'' of
                 Inl e \<Rightarrow> (inner1, Inl e)
               | Inr transTemp0 \<Rightarrow>
                   (let transTemp = setcol transTemp0 ''rType'' (CStr ''trans'');
                        inner2 = AList.update ''trans'' transTemp inner1
                    in (inner2, filterDistance (pd_concat cisTemp transTemp) Distance)))))"

text \<open>
  The first loop, over the samples in the dictionary's order.  It returns the input
  dictionary as mutated and \<open>outDict\<close>, whose entry for a sample holds the key
  \<open>all\<close>; an error stops it, the samples not reached staying as they were.
\<close>

fun tagLoop :: "pairsSamples \<Rightarrow> int \<Rightarrow> pairsSamples \<times> (py_error + pairsSamples)" where
  "tagLoop [] Distance = ([], Inr [])"
| "tagLoop ((s, inner) # rest) Distance =
     (case tagSample inner Distance of
        (inner', Inl e) \<Rightarrow> ((s, inner') # rest, Inl e)
      | (inner', Inr a) \<Rightarrow>
          (case tagLoop rest Distance of
             (rest', Inl e) \<Rightarrow> ((s, inner') # rest', Inl e)
           | (rest', Inr od) \<Rightarrow> ((s, inner') # rest', Inr ((s, [(''all'', a)]) # od))))"

text \<open>\<open>min\<close> of a list of lengths; Python raises \<open>ValueError\<close> on the empty list.\<close>

definition py_min :: "nat list \<Rightarrow> py_error + nat" where
  "py_min xs = (case xs of [] \<Rightarrow> Inl ValueError | y # ys \<Rightarrow> Inr (fold min ys y))"

definition lenAll :: "cisTransPairs \<Rightarrow> py_error + nat" where
  "lenAll i = py_bind (getitem i ''all'') (\<lambda>a. Inr (nrows a))"

text \<open>
  The body of the second loop (lines 236 to 242): sample, split by tag, drop \<open>all\<close>.
\<close>

definition splitSample ::
    "(nat \<Rightarrow> nat) \<Rightarrow> nat \<Rightarrow> nat \<Rightarrow> cisTransPairs \<Rightarrow> py_error + cisTransPairs" where
  "splitSample rnd k minReads inner =
     py_bind (getitem inner ''all'') (\<lambda>a0.
     py_bind (sample rnd k a0 minReads) (\<lambda>a.
     let inner1 = AList.update ''all'' a inner
     in py_bind (getcol a ''rType'') (\<lambda>t.
     let inner2 = AList.update ''cis'' (loc_mask a (map (\<lambda>c. c = CStr ''cis'') t)) inner1
     in py_bind (getcol a ''rType'') (\<lambda>t'.
     let inner3 = AList.update ''trans'' (loc_mask a (map (\<lambda>c. c = CStr ''trans'') t')) inner2
     in Inr (AList.delete ''all'' inner3)))))"

text \<open>
  The second loop.  Every sample draws \<open>minReads\<close> numbers from the generator, so the
  next sample reads it \<open>minReads\<close> positions further.
\<close>

fun downLoop ::
    "(nat \<Rightarrow> nat) \<Rightarrow> nat \<Rightarrow> nat \<Rightarrow> pairsSamples \<Rightarrow> py_error + pairsSamples" where
  "downLoop rnd k minReads [] = Inr []"
| "downLoop rnd k minReads ((s, inner) # rest) =
     py_bind (splitSample rnd k minReads inner) (\<lambda>inner'.
     py_bind (downLoop rnd (k + minReads) minReads rest) (\<lambda>od.
     Inr ((s, inner') # od)))"

text \<open>
  \<open>downSamplePairs(sampleDict, Distance)\<close>: the pair of the input dictionary as the
  call leaves it and of the returned dictionary or the exception.
\<close>

definition downSamplePairs ::
    "(nat \<Rightarrow> nat) \<Rightarrow> pairsSamples \<Rightarrow> int \<Rightarrow> pairsSamples \<times> (py_error + pairsSamples)" where
  "downSamplePairs rnd sampleDict Distance =
     (case tagLoop sampleDict Distance of
        (sd, Inl e) \<Rightarrow> (sd, Inl e)
      | (sd, Inr outDict) \<Rightarrow>
          (sd, py_bind (collect (map (\<lambda>(s, i). lenAll i) outDict)) (\<lambda>ls.
               py_bind (py_min ls) (\<lambda>minReads.
               downLoop rnd 0 minReads outDict))))"

section \<open>Notions for the statements about downSamplePairs\<close>

text \<open>
  The statements below read a table row by row: \<open>cell_of cs r c\<close> is the cell of row
  \<open>r\<close> in column \<open>c\<close> of a table with columns \<open>cs\<close> (missing when the table has no
  such column), and \<open>far_apart D cs r\<close> says that both positions of the row are
  integers with \<open>pos2 - pos1 > D\<close>.  \<open>pairs_frame\<close> is the schema of a pairs table:
  distinct column names, among them \<open>pos1\<close> and \<open>pos2\<close>, rows as long as the
  header, and no string in a position.
\<close>

fun is_str :: "cell \<Rightarrow> bool" where
  "is_str (CStr s) = True"
| "is_str c = False"

definition cell_of :: "string list \<Rightarrow> cell list \<Rightarrow> string \<Rightarrow> cell" where
  "cell_of cs r c = (case col_index cs c of None \<Rightarrow> CNaN | Some j \<Rightarrow> r ! j)"

definition far_apart :: "int \<Rightarrow> string list \<Rightarrow> cell list \<Rightarrow> bool" where
  "far_apart D cs r =
     (case cell_of cs r ''pos1'' of
        CInt a \<Rightarrow> (case cell_of cs r ''pos2'' of CInt b \<Rightarrow> b - a > D | _ \<Rightarrow> False)
      | _ \<Rightarrow> False)"

definition keepFar :: "int \<Rightarrow> frame \<Rightarrow> frame" where
  "keepFar D f = f\<lparr>rows := filter (far_apart D (columns f)) (rows f)\<rparr>"

definition pairs_frame :: "frame \<Rightarrow> bool" where
  "pairs_frame f =
     (distinct (columns f) \<and> ''pos1'' \<in> set (columns f) \<and> ''pos2'' \<in> set (columns f) \<and>
      (\<forall>r \<in> set (rows f). length r = length (columns f) \<and>
          \<not> is_str (cell_of (columns f) r ''pos1'') \<and>
          \<not> is_str (cell_of (columns f) r ''pos2'')))"

definition diff_cell :: "cell \<Rightarrow> cell \<Rightarrow> cell" where
  "diff_cell y x = (case y of CInt b \<Rightarrow> (case x of CInt a \<Rightarrow> CInt (b - a) | _ \<Rightarrow> CNaN) | _ \<Rightarrow> CNaN)"

text \<open>What \<open>setcol\<close> does to one row.\<close>

definition setrow :: "string list \<Rightarrow> string \<Rightarrow> cell \<Rightarrow> cell list \<Rightarrow> cell list" where
  "setrow cs c v r = (case col_index cs c of Some j \<Rightarrow> r[j := v] | None \<Rightarrow> r @ [v])"

text \<open>The combined table of line 229, before the filter.\<close>

definition combined :: "frame \<Rightarrow> frame \<Rightarrow> frame" where
  "combined c t =
     pd_concat (setcol c ''rType'' (CStr ''cis'')) (setcol t ''rType'' (CStr ''trans''))"

text \<open>
  A sample is well formed when it has pairs tables under \<open>cis\<close> and \<open>trans\<close>; the
  dictionary is well formed when it has a sample and all its samples are.
  \<open>concatenated\<close> is a sample's combined table, \<open>qualifying\<close> what the distance filter
  keeps of it, and \<open>tagged\<close> the sample's dictionary once both tables got their tag.
\<close>

definition wf_sample :: "cisTransPairs \<Rightarrow> bool" where
  "wf_sample inner =
     (case map_of inner ''cis'' of None \<Rightarrow> False | Some c \<Rightarrow>
      (case map_of inner ''trans'' of None \<Rightarrow> False | Some t \<Rightarrow>
         pairs_frame c \<and> pairs_frame t))"

definition wf_dict :: "pairsSamples \<Rightarrow> bool" where
  "wf_dict sd = (sd \<noteq> [] \<and> list_all (\<lambda>(s, inner). wf_sample inner) sd)"

definition emptyFrame :: frame where
  "emptyFrame = \<lparr>columns = [], rows = []\<rparr>"

definition concatenated :: "cisTransPairs \<Rightarrow> frame" where
  "concatenated inner =
     (case map_of inner ''cis'' of None \<Rightarrow> emptyFrame | Some c \<Rightarrow>
      (case map_of inner ''trans'' of None \<Rightarrow> emptyFrame | Some t \<Rightarrow> combined c t))"

definition qualifying :: "int \<Rightarrow> cisTransPairs \<Rightarrow> frame" where
  "qualifying D inner = keepFar D (concatenated inner)"

definition tagged :: "cisTransPairs \<Rightarrow> cisTransPairs" where
  "tagged inner =
     (case map_of inner ''cis'' of None \<Rightarrow> inner | Some c \<Rightarrow>
      (let inner1 = AList.update ''cis'' (setcol c ''rType'' (CStr ''cis'')) inner
       in (case map_of inner ''trans'' of None \<Rightarrow> inner1 | Some t \<Rightarrow>
             AList.update ''trans'' (setcol t ''rType'' (CStr ''trans'')) inner1)))"

text \<open>The rows of a table that carry a given tag.\<close>

definition pick :: "string \<Rightarrow> frame \<Rightarrow> frame" where
  "pick tag a = a\<lparr>rows := filter (\<lambda>r. cell_of (columns a) r ''rType'' = CStr tag) (rows a)\<rparr>"

text \<open>
  \<open>drawn_from m a smp\<close>: the table \<open>smp\<close> holds \<open>m\<close> rows of \<open>a\<close>, no row of \<open>a\<close>
  taken more often than \<open>a\<close> has it.
\<close>

definition drawn_from :: "nat \<Rightarrow> frame \<Rightarrow> frame \<Rightarrow> bool" where
  "drawn_from m a smp =
     (columns smp = columns a \<and> nrows smp = m \<and> mset (rows smp) \<subseteq># mset (rows a))"

text \<open>The dictionary a sample ends with, for the sampled table \<open>smp\<close>.\<close>

definition split_of :: "frame \<Rightarrow> cisTransPairs \<Rightarrow> bool" where
  "split_of smp res = (res = [(''cis'', pick ''cis'' smp), (''trans'', pick ''trans'' smp)])"

text \<open>The least number of qualifying rows among the samples.\<close>

definition leastQualifying :: "int \<Rightarrow> pairsSamples \<Rightarrow> nat" where
  "leastQualifying D sd = Min (set (map (\<lambda>(s, inner). nrows (qualifying D inner)) sd))"

text \<open>Two samples, for the concrete instances below.\<close>

definition exampleSamples :: pairsSamples where
  "exampleSamples =
     [(''A'', [(''cis'', \<lparr>columns = [''pos1'', ''pos2''],
                          rows = [[CInt 0, CInt 20000], [CInt 5, CInt 100],
                                  [CInt 30000, CInt 10000]]\<rparr>),
               (''trans'', \<lparr>columns = [''pos1'', ''pos2''],
                            rows = [[CInt 0, CInt 50000], [CInt 7, CInt 70000]]\<rparr>)]),
      (''B'', [(''cis'', \<lparr>columns = [''pos1'', ''pos2''], rows = [[CInt 1, CInt 90000]]\<rparr>),
               (''trans'', \<lparr>columns = [''pos1'', ''pos2''],
                            rows = [[CInt 2, CInt 40000]]\<rparr>)])]"

text \<open>The rows of a table all carry the tag, and all are rows of the table \<open>a\<close>.\<close>

definition tagged_rows_of :: "string \<Rightarrow> frame \<Rightarrow> frame \<Rightarrow> bool" where
  "tagged_rows_of tag a f =
     (columns f = columns a \<and> ''rType'' \<in> set (columns f) \<and>
      (\<forall>r \<in> set (rows f). r \<in> set (rows a) \<and> cell_of (columns f) r ''rType'' = CStr tag))"

section \<open>slidingDiamond\<close>

text \<open>
  A float is a real number, an infinity or the value that is not a number; rounding is
  left out.  A matrix is an array of floats, the list of its rows.
\<close>

datatype fval = Fin real | PInf | NInf | FNaN

type_synonym matrix = "fval list list"

definition isinf :: "fval \<Rightarrow> bool" where
  "isinf x = (x = PInf \<or> x = NInf)"

fun fadd :: "fval \<Rightarrow> fval \<Rightarrow> fval" where
  "fadd (Fin a) (Fin b) = Fin (a + b)"
| "fadd FNaN y = FNaN"
| "fadd x FNaN = FNaN"
| "fadd PInf NInf = FNaN"
| "fadd NInf PInf = FNaN"
| "fadd PInf y = PInf"
| "fadd x PInf = PInf"
| "fadd NInf y = NInf"
| "fadd x NInf = NInf"

text \<open>Division of a float by a positive count.\<close>

fun fdiv_count :: "fval \<Rightarrow> nat \<Rightarrow> fval" where
  "fdiv_count (Fin a) n = Fin (a / real n)"
| "fdiv_count x n = x"

text \<open>
  \<open>np.nanmean\<close> over the cells of an array: the mean of the cells that are numbers,
  not a number when there is none.
\<close>

definition nanmean :: "fval list \<Rightarrow> fval" where
  "nanmean xs =
     (let ys = filter (\<lambda>x. x \<noteq> FNaN) xs
      in if ys = [] then FNaN else fdiv_count (foldl fadd (Fin 0) ys) (length ys))"

text \<open>\<open>np.mean\<close> of a non-empty range of integers.\<close>

definition np_mean :: "real list \<Rightarrow> real" where
  "np_mean xs = sum_list xs / real (length xs)"

text \<open>
  \<open>np.median\<close> of a non-empty list of numbers: the middle of the sorted list, or the
  mean of the two middle values.
\<close>

definition np_median :: "real list \<Rightarrow> real" where
  "np_median xs =
     (let s = sort xs; n = length xs
      in if odd n then s ! (n div 2) else (s ! (n div 2 - 1) + s ! (n div 2)) / 2)"

text \<open>
  \<open>array[i:i+halfWindow+1, i:i+halfWindow+1]\<close> is a view of the array, not a copy:
  \<open>diamond\<close> reads its cells, and the assignment
  \<open>diamondArray[np.isinf(diamondArray)] = np.nan\<close> writes into the array itself,
  which \<open>set_inf_nan\<close> returns.
\<close>

definition diamond :: "nat \<Rightarrow> nat \<Rightarrow> matrix \<Rightarrow> matrix" where
  "diamond i h M = map (\<lambda>row. take (h + 1) (drop i row)) (take (h + 1) (drop i M))"

definition in_diamond :: "nat \<Rightarrow> nat \<Rightarrow> nat \<Rightarrow> bool" where
  "in_diamond i h k = (i \<le> k \<and> k \<le> i + h)"

definition set_inf_nan :: "nat \<Rightarrow> nat \<Rightarrow> matrix \<Rightarrow> matrix" where
  "set_inf_nan i h M =
     map (\<lambda>(r, row).
            if in_diamond i h r
            then map (\<lambda>(c, x). if in_diamond i h c \<and> isinf x then FNaN else x)
                   (enumerate 0 row)
            else row)
         (enumerate 0 M)"

text \<open>
  The loop of lines 190 to 197 over the positions \<open>is\<close>, with the array and the two
  accumulators as its state.
\<close>

fun diamondLoop ::
    "nat \<Rightarrow> nat list \<Rightarrow> matrix \<Rightarrow> real list \<Rightarrow> fval list \<Rightarrow> matrix \<times> real list \<times> fval list" where
  "diamondLoop h [] M binAcc diamondAcc = (M, binAcc, diamondAcc)"
| "diamondLoop h (i # is) M binAcc diamondAcc =
     (let M' = set_inf_nan i h M;
          v = nanmean (concat (diamond i h M'));
          b = np_mean (map real [i ..< i + h + 1])
      in diamondLoop h is M' (binAcc @ [b]) (diamondAcc @ [v]))"

text \<open>
  \<open>slidingDiamond(array, sideLen)\<close> for a side length that is a natural number:
  the array as the call leaves it, and the returned pair of offsets and values.
\<close>

definition slidingDiamond :: "matrix \<Rightarrow> nat \<Rightarrow> matrix \<times> (real list \<times> fval list)" where
  "slidingDiamond array sideLen =
     (let halfWindow = sideLen div 2
      in case diamondLoop halfWindow [0 ..< length array - halfWindow] array [] [] of
           (array', binAccumulator, diamondAccumulator) \<Rightarrow>
             (array', (map (\<lambda>b. b - np_median binAccumulator) binAccumulator,
                       diamondAccumulator)))"

section \<open>pileToFrame\<close>

text \<open>
  A numpy array is its shape with its cells in row-major order, the order \<open>flatten\<close>
  and \<open>reshape\<close> work in.  The data frame built from a two-dimensional array has the
  default labels, so it is modelled by the array of its values.
\<close>

record 'a ndarray =
  shape :: "nat list"
  cells :: "'a list"

definition shape_at :: "'a ndarray \<Rightarrow> nat \<Rightarrow> py_error + nat" where
  "shape_at a k = (if k < length (shape a) then Inr (shape a ! k) else Inl IndexError)"

definition flatten :: "'a ndarray \<Rightarrow> 'a ndarray" where
  "flatten a = \<lparr>shape = [length (cells a)], cells = cells a\<rparr>"

text \<open>\<open>a.reshape(r, c)\<close>: \<open>ValueError\<close> when the array does not have \<open>r * c\<close> cells.\<close>

definition reshape2 :: "'a ndarray \<Rightarrow> nat \<Rightarrow> nat \<Rightarrow> py_error + 'a ndarray" where
  "reshape2 a r c =
     (if r * c = length (cells a) then Inr \<lparr>shape = [r, c], cells = cells a\<rparr>
      else Inl ValueError)"

text \<open>The transpose of a table with \<open>r\<close> rows and \<open>c\<close> columns.\<close>

definition transpose2 :: "'a ndarray \<Rightarrow> 'a ndarray" where
  "transpose2 a =
     (case shape a of
        [r, c] \<Rightarrow> \<lparr>shape = [c, r],
                   cells = map (\<lambda>n. cells a ! ((n mod r) * c + n div r)) [0 ..< c * r]\<rparr>
      | _ \<Rightarrow> a)"

definition pileToFrame :: "'a ndarray \<Rightarrow> py_error + 'a ndarray" where
  "pileToFrame pile =
     py_bind (shape_at pile 0) (\<lambda>s0.
     py_bind (shape_at pile 2) (\<lambda>s2.
     py_bind (reshape2 (flatten pile) (s0 ^ 2) s2) (\<lambda>m.
     Inr (transpose2 m))))"

text \<open>The cell \<open>a[i][j]\<close> of a table and \<open>a[i][j][k]\<close> of a pile.\<close>

definition at2 :: "'a ndarray \<Rightarrow> nat \<Rightarrow> nat \<Rightarrow> 'a" where
  "at2 a i j = cells a ! (i * (shape a ! 1) + j)"

definition at3 :: "'a ndarray \<Rightarrow> nat \<Rightarrow> nat \<Rightarrow> nat \<Rightarrow> 'a" where
  "at3 a i j k = cells a ! ((i * (shape a ! 1) + j) * (shape a ! 2) + k)"

text \<open>
  The way back: the table transposed and reshaped to \<open>[W, W, N]\<close>.  The module has no
  such function; it is the reshaping the round trip speaks of.
\<close>

definition frameToPile :: "nat \<Rightarrow> nat \<Rightarrow> 'a ndarray \<Rightarrow> py_error + 'a ndarray" where
  "frameToPile W N t =
     (let m = transpose2 t
      in if W * W * N = length (cells m) then Inr \<lparr>shape = [W, W, N], cells = cells m\<rparr>
         else Inl ValueError)"

section \<open>assignRegions2d\<close>

text \<open>
  The windows come from \<open>cooltools.snipping\<close>, which is not part of the module:
  \<open>make_bin_aligned_windows\<close> and \<open>assign_regions\<close> are parameters of the model.  A
  window is a row with the columns \<open>chrom\<close>, \<open>start\<close>, \<open>end\<close>, \<open>lo\<close>, \<open>hi\<close> and,
  once assigned, \<open>region\<close>, which is null (\<open>None\<close>) when no arm fits.  The tables carry
  the default index, so the label of a row is its position.
\<close>

record bare_window =
  w_chrom :: string
  w_start :: int
  w_end :: int
  w_lo :: int
  w_hi :: int

record 'r window = bare_window +
  region :: "'r option"

type_synonym arm = "string \<times> int \<times> int"

type_synonym make_windows = "int \<Rightarrow> string list \<Rightarrow> int list \<Rightarrow> int \<Rightarrow> bare_window list"

type_synonym 'r assign = "bare_window list \<Rightarrow> arm list \<Rightarrow> 'r window list"

definition assignRegions ::
    "make_windows \<Rightarrow> 'r assign \<Rightarrow> int \<Rightarrow> int \<Rightarrow> string list \<Rightarrow> int list \<Rightarrow> arm list
       \<Rightarrow> 'r window list" where
  "assignRegions make_bin_aligned_windows assign_regions window binsize chroms positions arms =
     (let snipping_windows = make_bin_aligned_windows binsize chroms positions window
      in assign_regions snipping_windows arms)"

text \<open>
  \<open>pd.concat((windows1, windows2), axis=1)\<close> puts the rows with the same label side by
  side; where one table is shorter, its cells are null.
\<close>

fun concat_axis1 :: "'a list \<Rightarrow> 'b list \<Rightarrow> ('a option \<times> 'b option) list" where
  "concat_axis1 [] [] = []"
| "concat_axis1 (x # xs) [] = (Some x, None) # concat_axis1 xs []"
| "concat_axis1 [] (y # ys) = (None, Some y) # concat_axis1 [] ys"
| "concat_axis1 (x # xs) (y # ys) = (Some x, Some y) # concat_axis1 xs ys"

text \<open>The comparison \<open>==\<close> of two cells of a series: a null cell equals nothing.\<close>

definition series_eq :: "'r option \<Rightarrow> 'r option \<Rightarrow> bool" where
  "series_eq x y =
     (case x of None \<Rightarrow> False | Some a \<Rightarrow> (case y of None \<Rightarrow> False | Some b \<Rightarrow> a = b))"

text \<open>A row of the returned table.\<close>

record 'r window2d =
  chrom1 :: "string option"
  start1 :: "int option"
  end1 :: "int option"
  chrom2 :: "string option"
  start2 :: "int option"
  end2 :: "int option"
  region2d :: "'r option"

definition windowsSmallRow :: "'r window option \<times> 'r window option \<Rightarrow> 'r window2d" where
  "windowsSmallRow p =
     \<lparr>chrom1 = map_option w_chrom (fst p), start1 = map_option w_start (fst p),
      end1 = map_option w_end (fst p),
      chrom2 = map_option w_chrom (snd p), start2 = map_option w_start (snd p),
      end2 = map_option w_end (snd p),
      region2d = Option.bind (fst p) region\<rparr>"

definition assignRegions2d ::
    "make_windows \<Rightarrow> 'r assign \<Rightarrow> int \<Rightarrow> int \<Rightarrow> string list \<Rightarrow> int list
       \<Rightarrow> string list \<Rightarrow> int list \<Rightarrow> arm list \<Rightarrow> 'r window2d list" where
  "assignRegions2d make_bin_aligned_windows assign_regions window binsize
       chroms1 positions1 chroms2 positions2 arms =
     (let windows1 = assignRegions make_bin_aligned_windows assign_regions window binsize
                       chroms1 positions1 arms;
          windows2 = assignRegions make_bin_aligned_windows assign_regions window binsize
                       chroms2 positions2 arms;
          windows = concat_axis1 windows1 windows2;
          windowsFinal = filter (\<lambda>p. series_eq (Option.bind (fst p) region)
                                            (Option.bind (snd p) region)) windows
      in map windowsSmallRow windowsFinal)"

text \<open>
  Two windows that resolved to the same arm, and the row they give.
\<close>

definition same_region :: "'r window \<times> 'r window \<Rightarrow> bool" where
  "same_region p = (case region (fst p) of None \<Rightarrow> False | Some r \<Rightarrow> region (snd p) = Some r)"

definition joined :: "'r window \<times> 'r window \<Rightarrow> 'r window2d" where
  "joined p =
     \<lparr>chrom1 = Some (w_chrom (fst p)), start1 = Some (w_start (fst p)),
      end1 = Some (w_end (fst p)),
      chrom2 = Some (w_chrom (snd p)), start2 = Some (w_start (snd p)),
      end2 = Some (w_end (snd p)),
      region2d = region (fst p)\<rparr>"

text \<open>
  Example collaborators for the concrete instance: a window of \<open>window\<close> bases on both
  sides of the position, and the arm of the window's chromosome that contains it.
\<close>

definition exampleMake :: make_windows where
  "exampleMake binsize chroms positions window =
     map (\<lambda>(c, p). \<lparr>w_chrom = c, w_start = p - window, w_end = p + window,
                      w_lo = (p - window) div binsize, w_hi = (p + window) div binsize\<rparr>)
       (zip chroms positions)"

definition exampleAssign :: "nat assign" where
  "exampleAssign ws arms =
     map (\<lambda>w. \<lparr>w_chrom = w_chrom w, w_start = w_start w, w_end = w_end w,
                 w_lo = w_lo w, w_hi = w_hi w,
                 region = map_option fst
                   (find (\<lambda>(i, (c, s, e)). c = w_chrom w \<and> s \<le> w_start w \<and> w_end w \<le> e)
                      (enumerate 0 arms))\<rparr>) ws"

section \<open>getPairingScore\<close>

text \<open>
  Subtraction of floats, and \<open>np.median\<close> of a list of floats: not a number on the
  empty list or when a value is not a number, otherwise the middle of the sorted list or
  the mean of the two middle values, the infinities sorted at the ends.
\<close>

fun fneg :: "fval \<Rightarrow> fval" where
  "fneg (Fin a) = Fin (- a)"
| "fneg PInf = NInf"
| "fneg NInf = PInf"
| "fneg FNaN = FNaN"

definition fsub :: "fval \<Rightarrow> fval \<Rightarrow> fval" where
  "fsub x y = fadd x (fneg y)"

fun finite_part :: "fval list \<Rightarrow> real list" where
  "finite_part [] = []"
| "finite_part (Fin a # xs) = a # finite_part xs"
| "finite_part (x # xs) = finite_part xs"

definition fsort :: "fval list \<Rightarrow> fval list" where
  "fsort xs = replicate (length (filter (\<lambda>x. x = NInf) xs)) NInf
            @ map Fin (sort (finite_part xs))
            @ replicate (length (filter (\<lambda>x. x = PInf) xs)) PInf"

definition fmedian :: "fval list \<Rightarrow> fval" where
  "fmedian xs =
     (if xs = [] \<or> FNaN \<in> set xs then FNaN
      else let s = fsort xs; n = length xs
           in if odd n then s ! (n div 2)
              else fdiv_count (fadd (s ! (n div 2 - 1)) (s ! (n div 2))) 2)"

text \<open>The rows of a table.\<close>

definition rows_of :: "'a ndarray \<Rightarrow> 'a list list" where
  "rows_of t =
     (case shape t of
        [r, c] \<Rightarrow> map (\<lambda>k. take c (drop (k * c) (cells t))) [0 ..< r]
      | _ \<Rightarrow> [])"

record bin_region =
  r_chrom :: string
  r_start :: int
  r_end :: int

record scored = bin_region +
  PairingScore :: fval

text \<open>
  Lines 296 to 307 of \<open>getPairingScore\<close>.  What comes before them is the work of the
  cooler file and of \<open>cooltools\<close>, so the model takes its results: \<open>pile\<close> is the pile
  of line 295 and \<open>merged\<close> the table of line 301, each row with its index label; that
  table has no missing cell, so that \<open>output.dropna()\<close> in line 306 drops exactly the
  rows without a score.  Line 303 aligns the scores on the labels: a row whose label is
  no position of \<open>summarized\<close> gets no score.
\<close>

definition scoredRow :: "bin_region \<Rightarrow> fval \<Rightarrow> scored" where
  "scoredRow r s =
     \<lparr>r_chrom = r_chrom r, r_start = r_start r, r_end = r_end r, PairingScore = s\<rparr>"

definition getPairingScore ::
    "(fval list \<Rightarrow> fval) \<Rightarrow> bool \<Rightarrow> fval ndarray \<Rightarrow> (nat \<times> bin_region) list
       \<Rightarrow> py_error + scored list" where
  "getPairingScore func norm_flag pile merged =
     py_bind (pileToFrame pile) (\<lambda>pileFrame.
       let summarized = map func (rows_of pileFrame);
           output = map (\<lambda>(l, r). (r, if l < length summarized then summarized ! l else FNaN))
                      merged;
           output' =
             (if norm_flag
              then let m = fmedian (filter (\<lambda>s. s \<noteq> FNaN) (map snd output))
                   in map (\<lambda>(r, s). (r, fsub s m)) output
              else output)
       in Inr (map (\<lambda>(r, s). scoredRow r s) output'))"

definition examplePile :: "fval ndarray" where
  "examplePile = \<lparr>shape = [1, 1, 4], cells = [PInf, FNaN, Fin 3, Fin 5]\<rparr>"

definition exampleMerged :: "(nat \<times> bin_region) list" where
  "exampleMerged =
     [(0, \<lparr>r_chrom = ''chr1'', r_start = 0, r_end = 10\<rparr>),
      (1, \<lparr>r_chrom = ''chr1'', r_start = 10, r_end = 20\<rparr>),
      (2, \<lparr>r_chrom = ''chr1'', r_start = 20, r_end = 30\<rparr>),
      (3, \<lparr>r_chrom = ''chr1'', r_start = 30, r_end = 40\<rparr>)]"

section \<open>getExpected\<close>
















section \<open>What downSamplePairs computes\<close>

lemma py_bind_simps [simp]:
  "py_bind (Inl e) f = Inl e" "py_bind (Inr v) f = f v"
  by (simp_all add: py_bind_def)

lemma col_index_Some: "col_index cs c = Some j \<Longrightarrow> j < length cs \<and> cs ! j = c"
  by (induction cs arbitrary: j) (auto split: if_splits)

lemma col_index_None: "col_index cs c = None \<longleftrightarrow> c \<notin> set cs"
  by (induction cs) auto

lemma col_index_mem: "c \<in> set cs \<Longrightarrow> \<exists>j. col_index cs c = Some j"
  using col_index_None [of cs c] by (cases "col_index cs c") auto

lemma col_index_append:
  "col_index (xs @ ys) c =
     (case col_index xs c of Some j \<Rightarrow> Some j
      | None \<Rightarrow> map_option (\<lambda>j. length xs + j) (col_index ys c))"
  by (induction xs) (cases "col_index ys c"; auto simp: option.map_comp comp_def split: option.splits)+

lemma collect_map:
  "(\<And>x. x \<in> set xs \<Longrightarrow> f x = Inr (g x)) \<Longrightarrow> collect (map f xs) = Inr (map g xs)"
  by (induction xs) auto

lemma filter_zip_map: "map fst (filter snd (zip xs (map P xs))) = filter P xs"
  by (induction xs) auto

lemma zip_same_map:
  "map (\<lambda>(x, y). f x y) (zip (map g xs) (map h xs)) = map (\<lambda>r. f (g r) (h r)) xs"
  by (induction xs) auto

lemma getcol_cell_of:
  "c \<in> set (columns f) \<Longrightarrow> getcol f c = Inr (map (\<lambda>r. cell_of (columns f) r c) (rows f))"
  by (auto simp: getcol_def cell_of_def dest: col_index_mem)

lemma cell_sub_diff: "\<not> is_str x \<Longrightarrow> \<not> is_str y \<Longrightarrow> cell_sub y x = Inr (diff_cell y x)"
  by (cases x; cases y) (auto simp: diff_cell_def)

lemma cell_gt_diff:
  "\<not> is_str x \<Longrightarrow> \<not> is_str y \<Longrightarrow> cell_gt (diff_cell y x) D
     = Inr (case x of CInt a \<Rightarrow> (case y of CInt b \<Rightarrow> b - a > D | _ \<Rightarrow> False) | _ \<Rightarrow> False)"
  by (cases x; cases y) (auto simp: diff_cell_def)

lemma filterDistance_keepFar:
  assumes "''pos1'' \<in> set (columns f)" "''pos2'' \<in> set (columns f)"
    and "\<And>r. r \<in> set (rows f) \<Longrightarrow> \<not> is_str (cell_of (columns f) r ''pos1'')
            \<and> \<not> is_str (cell_of (columns f) r ''pos2'')"
  shows "filterDistance f D = Inr (keepFar D f)"
proof -
  let ?p1 = "\<lambda>r. cell_of (columns f) r ''pos1''"
  let ?p2 = "\<lambda>r. cell_of (columns f) r ''pos2''"
  have sub: "series_sub (map ?p2 (rows f)) (map ?p1 (rows f))
      = Inr (map (\<lambda>r. diff_cell (?p2 r) (?p1 r)) (rows f))"
  proof -
    have "map (\<lambda>(x, y). cell_sub x y) (zip (map ?p2 (rows f)) (map ?p1 (rows f)))
        = map (\<lambda>r. cell_sub (?p2 r) (?p1 r)) (rows f)"
      by (rule zip_same_map)
    then show ?thesis
      using assms(3) by (simp add: series_sub_def collect_map cell_sub_diff)
  qed
  have gt: "series_gt (map (\<lambda>r. diff_cell (?p2 r) (?p1 r)) (rows f)) D
      = Inr (map (far_apart D (columns f)) (rows f))"
    unfolding series_gt_def map_map comp_def
    by (rule collect_map) (use assms(3) in \<open>simp add: cell_gt_diff far_apart_def\<close>)
  show ?thesis
    by (simp add: filterDistance_def getcol_cell_of assms(1,2) sub gt loc_mask_def
        keepFar_def filter_zip_map)
qed

lemma rows_setcol: "rows (setcol f c v) = map (setrow (columns f) c v) (rows f)"
  by (simp add: setcol_def setrow_def split: option.splits)

lemma columns_setcol:
  "columns (setcol f c v) = (if c \<in> set (columns f) then columns f else columns f @ [c])"
  using col_index_None [of "columns f" c]
  by (auto simp: setcol_def split: option.splits)

lemma length_setrow:
  "length r = length cs \<Longrightarrow>
   length (setrow cs c v r) = length (if c \<in> set cs then cs else cs @ [c])"
  using col_index_None [of cs c]
  by (auto simp: setrow_def split: option.splits)

lemma cell_of_setrow_same:
  "length r = length cs \<Longrightarrow>
   cell_of (if c \<in> set cs then cs else cs @ [c]) (setrow cs c v r) c = v"
  using col_index_None [of cs c]
  by (auto simp: setrow_def cell_of_def col_index_append nth_append dest: col_index_Some
      split: option.splits)

lemma cell_of_setrow_other:
  assumes "length r = length cs" "k \<noteq> c"
  shows "cell_of (if c \<in> set cs then cs else cs @ [c]) (setrow cs c v r) k = cell_of cs r k"
proof (cases "col_index cs c")
  case None
  then have c: "c \<notin> set cs" by (simp add: col_index_None)
  show ?thesis
  proof (cases "col_index cs k")
    case None
    with c assms(2) show ?thesis
      by (simp add: cell_of_def col_index_append)
  next
    case (Some i)
    then have "i < length r" using col_index_Some [OF Some] assms(1) by simp
    with c Some \<open>col_index cs c = None\<close> show ?thesis
      by (simp add: cell_of_def col_index_append setrow_def nth_append)
  qed
next
  case (Some j)
  then have c: "c \<in> set cs" using col_index_None [of cs c] by auto
  show ?thesis
  proof (cases "col_index cs k")
    case None
    with c show ?thesis by (simp add: cell_of_def)
  next
    case (Some i)
    have "i \<noteq> j"
      using col_index_Some [OF Some] col_index_Some [OF \<open>col_index cs c = Some j\<close>] assms(2)
      by auto
    with c Some \<open>col_index cs c = Some j\<close> show ?thesis
      by (simp add: cell_of_def setrow_def)
  qed
qed

lemma cell_of_reindex_row:
  "c \<in> set cs \<Longrightarrow> cell_of cs (reindex_row cs own r) c = cell_of own r c"
proof -
  assume "c \<in> set cs"
  then obtain j where j: "col_index cs c = Some j" using col_index_mem by blast
  from col_index_Some [OF j] show ?thesis
    by (simp add: cell_of_def reindex_row_def j)
qed

lemma length_reindex_row: "length (reindex_row cs own r) = length cs"
  by (simp add: reindex_row_def)

lemma columns_combined_mem:
  "k \<in> set (columns c) \<Longrightarrow> k \<in> set (columns (combined c t))"
  "''rType'' \<in> set (columns (combined c t))"
  by (auto simp: combined_def pd_concat_def Let_def columns_setcol)

lemma rows_combined:
  assumes "r \<in> set (rows (combined c t))"
    and "\<forall>r \<in> set (rows c). length r = length (columns c)"
    and "\<forall>r \<in> set (rows t). length r = length (columns t)"
  shows "(\<exists>r0 \<in> set (rows c).
            cell_of (columns (combined c t)) r ''rType'' = CStr ''cis'' \<and>
            (\<forall>k. k \<noteq> ''rType'' \<longrightarrow> k \<in> set (columns c) \<longrightarrow>
                 cell_of (columns (combined c t)) r k = cell_of (columns c) r0 k))
       \<or> (\<exists>r0 \<in> set (rows t).
            cell_of (columns (combined c t)) r ''rType'' = CStr ''trans'' \<and>
            (\<forall>k. k \<noteq> ''rType'' \<longrightarrow> k \<in> set (columns t) \<longrightarrow>
                 cell_of (columns (combined c t)) r k = cell_of (columns t) r0 k))"
proof -
  let ?c' = "setcol c ''rType'' (CStr ''cis'')"
  let ?t' = "setcol t ''rType'' (CStr ''trans'')"
  let ?cs = "columns (combined c t)"
  have cs: "?cs = columns ?c' @ filter (\<lambda>k. k \<notin> set (columns ?c')) (columns ?t')"
    by (simp add: combined_def pd_concat_def Let_def)
  have rT: "''rType'' \<in> set ?cs" by (rule columns_combined_mem)
  from assms(1) consider
      (cis) r0 where "r0 \<in> set (rows c)"
        "r = reindex_row ?cs (columns ?c') (setrow (columns c) ''rType'' (CStr ''cis'') r0)"
    | (trans) r0 where "r0 \<in> set (rows t)"
        "r = reindex_row ?cs (columns ?t') (setrow (columns t) ''rType'' (CStr ''trans'') r0)"
    by (auto simp: combined_def pd_concat_def Let_def rows_setcol)
  then show ?thesis
  proof cases
    case cis
    with assms(2) have len: "length r0 = length (columns c)" by blast
    have "cell_of ?cs r ''rType'' = CStr ''cis''"
      using cis(2) rT len
      by (simp add: cell_of_reindex_row columns_setcol cell_of_setrow_same)
    moreover have "cell_of ?cs r k = cell_of (columns c) r0 k"
      if "k \<noteq> ''rType''" "k \<in> set (columns c)" for k
    proof -
      have "k \<in> set ?cs" using that(2) by (rule columns_combined_mem)
      then show ?thesis
        using cis(2) len that(1)
        by (simp add: cell_of_reindex_row columns_setcol cell_of_setrow_other)
    qed
    ultimately show ?thesis using cis(1) by blast
  next
    case trans
    with assms(3) have len: "length r0 = length (columns t)" by blast
    have "cell_of ?cs r ''rType'' = CStr ''trans''"
      using trans(2) rT len
      by (simp add: cell_of_reindex_row columns_setcol cell_of_setrow_same)
    moreover have "cell_of ?cs r k = cell_of (columns t) r0 k"
      if "k \<noteq> ''rType''" "k \<in> set (columns t)" for k
    proof -
      have "k \<in> set ?cs" using that(2)
        by (auto simp: combined_def pd_concat_def Let_def columns_setcol)
      then show ?thesis
        using trans(2) len that(1)
        by (simp add: cell_of_reindex_row columns_setcol cell_of_setrow_other)
    qed
    ultimately show ?thesis using trans(1) by blast
  qed
qed

lemma fst_tagSample: "fst (tagSample inner D) = tagged inner"
  by (simp add: tagSample_def tagged_def getitem_def update_conv' Let_def
      split: option.splits)

lemma combined_pos:
  assumes "pairs_frame c" "pairs_frame t" "r \<in> set (rows (combined c t))"
    and "k = ''pos1'' \<or> k = ''pos2''"
  shows "\<not> is_str (cell_of (columns (combined c t)) r k)"
proof -
  have lc: "\<forall>r \<in> set (rows c). length r = length (columns c)"
    and lt: "\<forall>r \<in> set (rows t). length r = length (columns t)"
    using assms(1,2) by (simp_all add: pairs_frame_def)
  have kc: "k \<in> set (columns c)" and kt: "k \<in> set (columns t)" and kr: "k \<noteq> ''rType''"
    using assms(1,2,4) by (auto simp: pairs_frame_def)
  from rows_combined [OF assms(3) lc lt] show ?thesis
  proof
    assume "\<exists>r0 \<in> set (rows c).
        cell_of (columns (combined c t)) r ''rType'' = CStr ''cis'' \<and>
        (\<forall>k. k \<noteq> ''rType'' \<longrightarrow> k \<in> set (columns c) \<longrightarrow>
             cell_of (columns (combined c t)) r k = cell_of (columns c) r0 k)"
    then obtain r0 where "r0 \<in> set (rows c)"
      "cell_of (columns (combined c t)) r k = cell_of (columns c) r0 k"
      using kc kr by blast
    then show ?thesis using assms(1,4) by (auto simp: pairs_frame_def)
  next
    assume "\<exists>r0 \<in> set (rows t).
        cell_of (columns (combined c t)) r ''rType'' = CStr ''trans'' \<and>
        (\<forall>k. k \<noteq> ''rType'' \<longrightarrow> k \<in> set (columns t) \<longrightarrow>
             cell_of (columns (combined c t)) r k = cell_of (columns t) r0 k)"
    then obtain r0 where "r0 \<in> set (rows t)"
      "cell_of (columns (combined c t)) r k = cell_of (columns t) r0 k"
      using kt kr by blast
    then show ?thesis using assms(2,4) by (auto simp: pairs_frame_def)
  qed
qed

lemma combined_rType:
  assumes "pairs_frame c" "pairs_frame t" "r \<in> set (rows (combined c t))"
  shows "cell_of (columns (combined c t)) r ''rType'' = CStr ''cis''
       \<or> cell_of (columns (combined c t)) r ''rType'' = CStr ''trans''"
proof -
  have lc: "\<forall>r \<in> set (rows c). length r = length (columns c)"
    and lt: "\<forall>r \<in> set (rows t). length r = length (columns t)"
    using assms(1,2) by (simp_all add: pairs_frame_def)
  from rows_combined [OF assms(3) lc lt] show ?thesis by blast
qed

lemma tagSample_wf:
  assumes "wf_sample inner"
  shows "tagSample inner D = (tagged inner, Inr (qualifying D inner))"
proof -
  from assms obtain c t where ct: "map_of inner ''cis'' = Some c" "map_of inner ''trans'' = Some t"
      and pf: "pairs_frame c" "pairs_frame t"
    by (auto simp: wf_sample_def split: option.splits)
  have "filterDistance (combined c t) D = Inr (keepFar D (combined c t))"
  proof (rule filterDistance_keepFar)
    show "''pos1'' \<in> set (columns (combined c t))" "''pos2'' \<in> set (columns (combined c t))"
      using pf(1) by (auto simp: pairs_frame_def intro: columns_combined_mem)
    show "\<not> is_str (cell_of (columns (combined c t)) r ''pos1'')
        \<and> \<not> is_str (cell_of (columns (combined c t)) r ''pos2'')"
      if "r \<in> set (rows (combined c t))" for r
      using combined_pos [OF pf that] by simp
  qed
  then show ?thesis
    using ct
    by (simp add: tagSample_def getitem_def update_conv' Let_def tagged_def qualifying_def
        concatenated_def combined_def)
qed

lemma tagLoop_wf:
  "list_all (\<lambda>(s, inner). wf_sample inner) sd \<Longrightarrow>
   tagLoop sd D = (map (\<lambda>(s, inner). (s, tagged inner)) sd,
                   Inr (map (\<lambda>(s, inner). (s, [(''all'', qualifying D inner)])) sd))"
  by (induction sd) (auto simp: tagSample_wf)

lemma draw_length: "n \<le> length xs \<Longrightarrow> length (draw rnd k xs n) = n"
proof (induction n arbitrary: xs k)
  case 0
  then show ?case by simp
next
  case (Suc n)
  then obtain y ys where xs: "xs = y # ys" by (cases xs) auto
  let ?i = "rnd k mod length xs"
  have i: "?i < length xs" using xs by simp
  have "n \<le> length (take ?i xs @ drop (Suc ?i) xs)"
    using Suc.prems i by simp
  from Suc.IH [OF this] show ?case
    by (simp add: xs Let_def)
qed

lemma draw_mset: "mset (draw rnd k xs n) \<subseteq># mset xs"
proof (induction n arbitrary: xs k)
  case 0
  then show ?case by simp
next
  case (Suc n)
  show ?case
  proof (cases xs)
    case Nil
    then show ?thesis by simp
  next
    case (Cons y ys)
    let ?i = "rnd k mod length xs"
    let ?rest = "take ?i xs @ drop (Suc ?i) xs"
    have i: "?i < length xs" using Cons by simp
    have "xs = take ?i xs @ xs ! ?i # drop (Suc ?i) xs"
      using i by (rule id_take_nth_drop)
    then have "mset xs = mset (take ?i xs @ xs ! ?i # drop (Suc ?i) xs)" by simp
    then have split: "mset xs = add_mset (xs ! ?i) (mset ?rest)" by simp
    have "mset (draw rnd (Suc k) ?rest n) \<subseteq># mset ?rest" by (rule Suc.IH)
    then have "add_mset (xs ! ?i) (mset (draw rnd (Suc k) ?rest n)) \<subseteq># mset xs"
      unfolding split by simp
    then show ?thesis by (simp add: Cons Let_def)
  qed
qed

lemma splitSample_all:
  assumes "''rType'' \<in> set (columns a)" "m \<le> nrows a"
  shows "splitSample rnd k m [(''all'', a)]
       = Inr [(''cis'', pick ''cis'' (a\<lparr>rows := draw rnd k (rows a) m\<rparr>)),
              (''trans'', pick ''trans'' (a\<lparr>rows := draw rnd k (rows a) m\<rparr>))]"
proof -
  let ?s = "a\<lparr>rows := draw rnd k (rows a) m\<rparr>"
  have smp: "sample rnd k a m = Inr ?s" using assms(2) by (simp add: sample_def)
  have col: "''rType'' \<in> set (columns ?s)" using assms(1) by simp
  have "splitSample rnd k m [(''all'', a)]
      = py_bind (getcol ?s ''rType'') (\<lambda>t.
          py_bind (getcol ?s ''rType'') (\<lambda>t'.
            Inr [(''cis'', loc_mask ?s (map (\<lambda>c. c = CStr ''cis'') t)),
                 (''trans'', loc_mask ?s (map (\<lambda>c. c = CStr ''trans'') t'))]))"
    by (simp add: splitSample_def getitem_def smp Let_def)
  also have "\<dots> = Inr [(''cis'', pick ''cis'' ?s), (''trans'', pick ''trans'' ?s)]"
    using col by (simp add: getcol_cell_of loc_mask_def pick_def comp_def filter_zip_map)
  finally show ?thesis .
qed

lemma downLoop_all:
  assumes "\<forall>(s, i) \<in> set sd. ''rType'' \<in> set (columns (A i)) \<and> m \<le> nrows (A i)"
  shows "\<exists>out. downLoop rnd k m (map (\<lambda>(s, i). (s, [(''all'', A i)])) sd) = Inr out \<and>
           list_all2 (\<lambda>(s, i) (s', res). s' = s \<and>
              (\<exists>smp. drawn_from m (A i) smp \<and> split_of smp res)) sd out"
  using assms
proof (induction sd arbitrary: k)
  case Nil
  then show ?case by simp
next
  case (Cons p sd)
  obtain s i where p: "p = (s, i)" by (cases p)
  let ?smp = "(A i)\<lparr>rows := draw rnd k (rows (A i)) m\<rparr>"
  from Cons.prems p have a: "''rType'' \<in> set (columns (A i))" "m \<le> nrows (A i)" by auto
  have d: "drawn_from m (A i) ?smp"
    using a(2) by (simp add: drawn_from_def nrows_def draw_length draw_mset)
  from Cons.prems have "\<forall>(s, i) \<in> set sd. ''rType'' \<in> set (columns (A i)) \<and> m \<le> nrows (A i)"
    by simp
  from Cons.IH [OF this, of "k + m"] obtain out where
    out: "downLoop rnd (k + m) m (map (\<lambda>(s, i). (s, [(''all'', A i)])) sd) = Inr out"
      "list_all2 (\<lambda>(s, i) (s', res). s' = s \<and>
          (\<exists>smp. drawn_from m (A i) smp \<and> split_of smp res)) sd out"
    by blast
  have "downLoop rnd k m (map (\<lambda>(s, i). (s, [(''all'', A i)])) (p # sd))
      = Inr ((s, [(''cis'', pick ''cis'' ?smp), (''trans'', pick ''trans'' ?smp)]) # out)"
    by (simp add: p splitSample_all [OF a] out(1))
  moreover have "split_of ?smp [(''cis'', pick ''cis'' ?smp), (''trans'', pick ''trans'' ?smp)]"
    by (simp add: split_of_def)
  ultimately show ?case
    using d out(2) p by auto
qed

lemma lenAll_all: "lenAll [(''all'', a)] = Inr (nrows a)"
  by (simp add: lenAll_def getitem_def)

lemma py_min_Min: "xs \<noteq> [] \<Longrightarrow> py_min xs = Inr (Min (set xs))"
  by (cases xs) (simp_all add: py_min_def Min.set_eq_fold [symmetric])

lemma rType_qualifying:
  "wf_sample inner \<Longrightarrow> ''rType'' \<in> set (columns (qualifying D inner))"
  by (auto simp: wf_sample_def qualifying_def concatenated_def keepFar_def
      columns_combined_mem split: option.splits)

lemma downSamplePairs_wf:
  assumes "wf_dict sd"
  shows "\<exists>out. downSamplePairs rnd sd D = (map (\<lambda>(s, inner). (s, tagged inner)) sd, Inr out) \<and>
           list_all2 (\<lambda>(s, inner) (s', res). s' = s \<and>
              (\<exists>smp. drawn_from (leastQualifying D sd) (qualifying D inner) smp
                    \<and> split_of smp res)) sd out"
proof -
  let ?m = "leastQualifying D sd"
  let ?od = "map (\<lambda>(s, inner). (s, [(''all'', qualifying D inner)])) sd"
  let ?ls = "map (\<lambda>(s, inner). nrows (qualifying D inner)) sd"
  from assms have ne: "sd \<noteq> []" and wf: "list_all (\<lambda>(s, inner). wf_sample inner) sd"
    by (simp_all add: wf_dict_def)
  have lens: "collect (map (\<lambda>(s, i). lenAll i) ?od) = Inr ?ls"
  proof -
    have "map (\<lambda>(s, i). lenAll i) ?od = map (\<lambda>p. Inr (case p of (s, inner) \<Rightarrow> nrows (qualifying D inner))) sd"
      by (simp add: lenAll_all split_def)
    then show ?thesis by (simp add: collect_map)
  qed
  have mn: "py_min ?ls = Inr ?m"
    using ne by (simp add: py_min_Min leastQualifying_def)
  have pre: "\<forall>(s, i) \<in> set sd. ''rType'' \<in> set (columns (qualifying D i))
      \<and> ?m \<le> nrows (qualifying D i)"
  proof (clarify, intro conjI)
    fix s i assume m: "(s, i) \<in> set sd"
    with wf have "wf_sample i" by (auto simp: list_all_iff)
    then show "''rType'' \<in> set (columns (qualifying D i))" by (rule rType_qualifying)
    have "nrows (qualifying D i) \<in> set ?ls" using m by force
    then show "?m \<le> nrows (qualifying D i)"
      unfolding leastQualifying_def by (intro Min_le) auto
  qed
  have run: "downSamplePairs rnd sd D
      = (map (\<lambda>(s, inner). (s, tagged inner)) sd, downLoop rnd 0 ?m ?od)"
    by (simp only: downSamplePairs_def tagLoop_wf [OF wf] prod.case sum.case lens
        py_bind_simps mn)
  from downLoop_all [OF pre, of rnd 0] obtain out where
    "downLoop rnd 0 ?m ?od = Inr out"
    "list_all2 (\<lambda>(s, i) (s', res). s' = s \<and>
        (\<exists>smp. drawn_from ?m (qualifying D i) smp \<and> split_of smp res)) sd out"
    by blast
  then show ?thesis
    unfolding run by blast
qed


lemma drawn_rows:
  assumes "wf_sample inner" "drawn_from m (qualifying D inner) smp" "r \<in> set (rows smp)"
  shows "r \<in> set (rows (concatenated inner))"
    and "cell_of (columns smp) r ''rType'' = CStr ''cis''
       \<or> cell_of (columns smp) r ''rType'' = CStr ''trans''"
proof -
  from assms(1) obtain c t where ct: "map_of inner ''cis'' = Some c" "map_of inner ''trans'' = Some t"
      and pf: "pairs_frame c" "pairs_frame t"
    by (auto simp: wf_sample_def split: option.splits)
  have cat: "concatenated inner = combined c t" by (simp add: concatenated_def ct)
  have "set (rows smp) \<subseteq> set (rows (qualifying D inner))"
    using assms(2) set_mset_mono [of "mset (rows smp)" "mset (rows (qualifying D inner))"]
    by (simp add: drawn_from_def)
  with assms(3) have "r \<in> set (rows (qualifying D inner))" by blast
  then show r: "r \<in> set (rows (concatenated inner))"
    by (simp add: qualifying_def keepFar_def)
  have "columns smp = columns (combined c t)"
    using assms(2) by (simp add: drawn_from_def qualifying_def keepFar_def cat)
  then show "cell_of (columns smp) r ''rType'' = CStr ''cis''
       \<or> cell_of (columns smp) r ''rType'' = CStr ''trans''"
    using combined_rType [OF pf, of r] r cat by simp
qed

lemmas eval_defs = downSamplePairs_def tagSample_def getitem_def setcol_def
  pd_concat_def reindex_row_def filterDistance_def getcol_def series_sub_def
  series_gt_def loc_mask_def lenAll_def py_min_def splitSample_def sample_def nrows_def Let_def

lemmas spec_defs = wf_dict_def wf_sample_def pairs_frame_def cell_of_def

text \<open>
  What the first loop of \<open>downSamplePairs\<close> computes, that is the tables before any
  subsampling: the table \<open>all\<close> of every sample is the concatenation of its tagged cis
  and trans tables restricted to the rows with \<open>pos2 - pos1 > Distance\<close>, in their
  order.  The difference is signed, and cis and trans rows pass the same test.
\<close>

lemma tagLoop_keeps_far_apart:
  assumes "list_all (\<lambda>(s, inner). wf_sample inner) sd"
  shows "snd (tagLoop sd Distance)
       = Inr (map (\<lambda>(s, inner).
                (s, [(''all'', (concatenated inner)
                   \<lparr>rows := filter (far_apart Distance (columns (concatenated inner)))
                                   (rows (concatenated inner))\<rparr>)])) sd)"
  using assms by (simp add: tagLoop_wf qualifying_def keepFar_def)

text \<open>
  C1.  The pairs whose absolute distance \<open>|pos2 - pos1|\<close> is greater than the distance
  are not all retained: the filter of line 231, which its comment calls a filter on
  distance, compares the signed difference.  With the distance 10000 the cis pair at
  30000 and 10000 and the trans pair at 50000 and 20000, at the absolute distances 20000
  and 30000, are dropped before the subsampling, and only the cis pair at 0 and 20000 is
  left.
\<close>

theorem tagLoop_drops_reversed_pairs:
  "snd (tagLoop
     [(''A'', [(''cis'', \<lparr>columns = [''pos1'', ''pos2''],
                          rows = [[CInt 0, CInt 20000], [CInt 30000, CInt 10000]]\<rparr>),
               (''trans'', \<lparr>columns = [''pos1'', ''pos2''],
                            rows = [[CInt 50000, CInt 20000]]\<rparr>)])] 10000)
     = Inr [(''A'', [(''all'', \<lparr>columns = [''pos1'', ''pos2'', ''rType''],
                                rows = [[CInt 0, CInt 20000, CStr ''cis'']]\<rparr>)])]
   \<and> \<bar>(10000::int) - 30000\<bar> > 10000 \<and> \<bar>(20000::int) - 50000\<bar> > 10000"
  by (simp add: eval_defs)

lemma list_all2_samples:
  assumes "list_all2 P sd out" "list_all W sd"
    and "\<And>x y. P x y \<Longrightarrow> W x \<Longrightarrow> Q x y"
  shows "list_all2 Q sd out"
  using assms(1,2)
proof (induction rule: list_all2_induct)
  case Nil
  then show ?case by simp
next
  case (Cons x xs y ys)
  then show ?case using assms(3) by simp
qed


lemma split_tags:
  assumes "wf_sample inner" "drawn_from m (qualifying D inner) smp" "split_of smp res"
  shows "\<exists>c t. res = [(''cis'', c), (''trans'', t)] \<and>
           tagged_rows_of ''cis'' (concatenated inner) c \<and>
           tagged_rows_of ''trans'' (concatenated inner) t"
proof -
  have cols: "columns smp = columns (concatenated inner)"
    using assms(2) by (simp add: drawn_from_def qualifying_def keepFar_def)
  have rT: "''rType'' \<in> set (columns smp)"
    using rType_qualifying [OF assms(1), of D] assms(2) by (simp add: drawn_from_def)
  have "tagged_rows_of tag (concatenated inner) (pick tag smp)" for tag
    using cols rT drawn_rows(1) [OF assms(1,2)]
    by (auto simp: tagged_rows_of_def pick_def)
  then show ?thesis using assms(3) by (simp add: split_of_def)
qed

lemma split_empty:
  assumes "drawn_from 0 a smp" "split_of smp res"
  shows "\<exists>c t. res = [(''cis'', c), (''trans'', t)] \<and> rows c = [] \<and> rows t = []"
  using assms by (simp add: drawn_from_def split_of_def pick_def nrows_def)



text \<open>
  C10.  Under the same hypothesis, every sample of the returned dictionary has exactly
  the keys \<open>cis\<close> and \<open>trans\<close>, in this order; both tables have the columns of the
  sample's combined table, among them \<open>rType\<close>; every row of the cis table is a row of
  the combined table and has \<open>rType\<close> equal to \<open>cis\<close>, and likewise for \<open>trans\<close>.
\<close>

theorem downSamplePairs_keys_and_tags:
  assumes "wf_dict sd"
  shows "\<exists>out. snd (downSamplePairs rnd sd Distance) = Inr out \<and>
           list_all2 (\<lambda>(s, inner) (s', res). s' = s \<and>
              (\<exists>c t. res = [(''cis'', c), (''trans'', t)] \<and>
                 tagged_rows_of ''cis'' (concatenated inner) c \<and>
                 tagged_rows_of ''trans'' (concatenated inner) t))
             sd out"
proof -
  let ?m = "leastQualifying Distance sd"
  from downSamplePairs_wf [OF assms, of rnd Distance] obtain out where
    run: "snd (downSamplePairs rnd sd Distance) = Inr out"
    and all: "list_all2 (\<lambda>(s, inner) (s', res). s' = s \<and>
        (\<exists>smp. drawn_from ?m (qualifying Distance inner) smp \<and> split_of smp res)) sd out"
    by auto
  from assms have wf: "list_all (\<lambda>(s, inner). wf_sample inner) sd"
    by (simp add: wf_dict_def)
  have "list_all2 (\<lambda>(s, inner) (s', res). s' = s \<and>
      (\<exists>c t. res = [(''cis'', c), (''trans'', t)] \<and>
         tagged_rows_of ''cis'' (concatenated inner) c \<and>
         tagged_rows_of ''trans'' (concatenated inner) t)) sd out"
    using all wf by (rule list_all2_samples) (auto dest: split_tags)
  with run show ?thesis by blast
qed

theorem downSamplePairs_keys_and_tags_witness:
  "wf_dict exampleSamples \<and>
   (\<exists>out. snd (downSamplePairs (\<lambda>k. 2 * k + 1) exampleSamples 10000) = Inr out \<and>
      list_all2 (\<lambda>(s, inner) (s', res). s' = s \<and>
         (\<exists>c t. res = [(''cis'', c), (''trans'', t)] \<and>
            tagged_rows_of ''cis'' (concatenated inner) c \<and>
            tagged_rows_of ''trans'' (concatenated inner) t))
        exampleSamples out)"
proof -
  have wf: "wf_dict exampleSamples"
    by (simp add: exampleSamples_def spec_defs)
  with downSamplePairs_keys_and_tags [OF wf, of "\<lambda>k. 2 * k + 1" 10000] show ?thesis
    by blast
qed

text \<open>
  C9 (as amended).  When no sample has a qualifying row, \<open>downSamplePairs\<close> raises
  nothing: it returns, for every sample, an empty cis and an empty trans table.
\<close>

theorem downSamplePairs_no_qualifying_rows:
  assumes "wf_dict sd"
    and "list_all (\<lambda>(s, inner). rows (qualifying Distance inner) = []) sd"
  shows "\<exists>out. snd (downSamplePairs rnd sd Distance) = Inr out \<and>
           list_all2 (\<lambda>(s, inner) (s', res). s' = s \<and>
              (\<exists>c t. res = [(''cis'', c), (''trans'', t)] \<and> rows c = [] \<and> rows t = []))
             sd out"
proof -
  from assms(1) have ne: "sd \<noteq> []" by (simp add: wf_dict_def)
  have "map (\<lambda>(s, inner). nrows (qualifying Distance inner)) sd = map (\<lambda>p. 0) sd"
    using assms(2) by (induction sd) (auto simp: nrows_def)
  then have m: "leastQualifying Distance sd = 0"
    using ne by (simp add: leastQualifying_def)
  from downSamplePairs_wf [OF assms(1), of rnd Distance] obtain out where
    run: "snd (downSamplePairs rnd sd Distance) = Inr out"
    and all: "list_all2 (\<lambda>(s, inner) (s', res). s' = s \<and>
        (\<exists>smp. drawn_from 0 (qualifying Distance inner) smp \<and> split_of smp res)) sd out"
    unfolding m by auto
  have "list_all2 (\<lambda>(s, inner) (s', res). s' = s \<and>
      (\<exists>c t. res = [(''cis'', c), (''trans'', t)] \<and> rows c = [] \<and> rows t = [])) sd out"
    using all by (rule list_all2_mono) (auto dest: split_empty)
  with run show ?thesis by blast
qed

theorem downSamplePairs_no_qualifying_rows_witness:
  "wf_dict exampleSamples \<and>
   list_all (\<lambda>(s, inner). rows (qualifying 100000 inner) = []) exampleSamples \<and>
   (\<exists>out. snd (downSamplePairs (\<lambda>k. 0) exampleSamples 100000) = Inr out \<and>
      list_all2 (\<lambda>(s, inner) (s', res). s' = s \<and>
         (\<exists>c t. res = [(''cis'', c), (''trans'', t)] \<and> rows c = [] \<and> rows t = []))
        exampleSamples out)"
proof -
  have wf: "wf_dict exampleSamples"
    by (simp add: exampleSamples_def spec_defs)
  have none: "list_all (\<lambda>(s, inner). rows (qualifying 100000 inner) = []) exampleSamples"
    by (simp add: exampleSamples_def qualifying_def keepFar_def
        concatenated_def combined_def far_apart_def cell_of_def setcol_def pd_concat_def
        reindex_row_def Let_def)
  from wf none downSamplePairs_no_qualifying_rows [OF wf none, of "\<lambda>k. 0"] show ?thesis
    by blast
qed

text \<open>
  No error is reported: with the distance 100000 no pair of the two example samples
  qualifies, and the call returns empty tables.
\<close>

theorem downSamplePairs_silent_empty_counterexample:
  "snd (downSamplePairs (\<lambda>k. 0) exampleSamples 100000) =
     Inr [(''A'', [(''cis'', \<lparr>columns = [''pos1'', ''pos2'', ''rType''], rows = []\<rparr>),
                   (''trans'', \<lparr>columns = [''pos1'', ''pos2'', ''rType''], rows = []\<rparr>)]),
          (''B'', [(''cis'', \<lparr>columns = [''pos1'', ''pos2'', ''rType''], rows = []\<rparr>),
                   (''trans'', \<lparr>columns = [''pos1'', ''pos2'', ''rType''], rows = []\<rparr>)])]"
  by (simp add: exampleSamples_def eval_defs)

section \<open>What slidingDiamond computes\<close>

lemma diamondLoop_bins:
  "fst (snd (diamondLoop h is M bs vs))
     = bs @ map (\<lambda>i. np_mean (map real [i ..< i + h + 1])) is"
  by (induction "is" arbitrary: M bs vs) (simp_all add: Let_def)

lemma diamondLoop_values:
  "length (snd (snd (diamondLoop h is M bs vs))) = length vs + length is"
  by (induction "is" arbitrary: M bs vs) (simp_all add: Let_def)

lemma sum_range: "2 * sum_list (map real [i ..< i + h + 1]) = real (h + 1) * (2 * real i + real h)"
proof (induction h)
  case 0
  then show ?case by simp
next
  case (Suc h)
  have "[i ..< i + Suc h + 1] = [i ..< i + h + 1] @ [i + h + 1]"
    by (metis Suc_eq_plus1 add_Suc_right le_add1 upt_Suc_append le_SucI)
  then have "2 * sum_list (map real [i ..< i + Suc h + 1])
      = 2 * sum_list (map real [i ..< i + h + 1]) + 2 * real (i + h + 1)"
    by simp
  also have "\<dots> = real (h + 1) * (2 * real i + real h) + 2 * real (i + h + 1)"
    by (simp only: Suc.IH)
  also have "\<dots> = real (Suc h + 1) * (2 * real i + real (Suc h))"
    by (simp add: algebra_simps)
  finally show ?case .
qed

lemma np_mean_range: "np_mean (map real [i ..< i + h + 1]) = real i + real h / 2"
proof -
  have "sum_list (map real [i ..< i + h + 1]) = real (h + 1) * (2 * real i + real h) / 2"
    using sum_range [of i h] by simp
  then show ?thesis
    by (simp add: np_mean_def field_simps)
qed

lemma sort_progression: "sort (map (\<lambda>k. real k + c) [0 ..< n]) = map (\<lambda>k. real k + c) [0 ..< n]"
  by (rule sorted_sort_id) (simp add: sorted_map sorted_wrt_iff_nth_less)

lemma np_median_progression:
  assumes "0 < n"
  shows "np_median (map (\<lambda>k. real k + c) [0 ..< n]) = (real n - 1) / 2 + c"
proof -
  let ?xs = "map (\<lambda>k. real k + c) [0 ..< n]"
  have nth: "?xs ! j = real j + c" if "j < n" for j
    using that by (simp del: upt_Suc)
  show ?thesis
  proof (cases "odd n")
    case True
    then obtain m where m: "n = 2 * m + 1" by (auto elim: oddE)
    have "np_median ?xs = ?xs ! m"
      unfolding np_median_def sort_progression Let_def using m by simp
    also have "\<dots> = real m + c" using m by (intro nth) simp
    finally show ?thesis using m by simp
  next
    case False
    then obtain m where "n = 2 * m" by (auto elim: evenE)
    with assms obtain j where m: "n = 2 * (j + 1)" by (cases m) auto
    have "np_median ?xs = (?xs ! j + ?xs ! (j + 1)) / 2"
      unfolding np_median_def sort_progression Let_def using m by simp
    also have "\<dots> = (real j + c + (real (j + 1) + c)) / 2"
    proof -
      have "j < n" "j + 1 < n" using m by simp_all
      then show ?thesis by (simp only: nth)
    qed
    finally show ?thesis using m by (simp add: field_simps)
  qed
qed

lemma sum_upt_real: "2 * sum_list (map real [0 ..< n]) = real n * (real n - 1)"
  by (induction n) (simp_all add: algebra_simps)

lemma sum_centered: "sum_list (map (\<lambda>k. real k - (real n - 1) / 2) [0 ..< n]) = 0"
proof -
  have "sum_list (map (\<lambda>k. real k - (real n - 1) / 2) [0 ..< n])
      = sum_list (map real [0 ..< n]) - real n * ((real n - 1) / 2)"
    by (simp add: sum_list_subtractf sum_list_triv comp_def)
  also have "\<dots> = 0" using sum_upt_real [of n] by (simp add: field_simps)
  finally show ?thesis .
qed

lemma slidingDiamond_result:
  assumes "0 < length array - sideLen div 2"
  shows "fst (snd (slidingDiamond array sideLen))
           = map (\<lambda>k. real k - (real (length array - sideLen div 2) - 1) / 2)
               [0 ..< length array - sideLen div 2]"
    and "length (snd (snd (slidingDiamond array sideLen))) = length array - sideLen div 2"
proof -
  let ?h = "sideLen div 2"
  let ?n = "length array - ?h"
  let ?c = "real ?h / 2"
  obtain M' bs vs where run: "diamondLoop ?h [0 ..< ?n] array [] [] = (M', bs, vs)"
    by (cases "diamondLoop ?h [0 ..< ?n] array [] []") auto
  have "bs = map (\<lambda>i. np_mean (map real [i ..< i + ?h + 1])) [0 ..< ?n]"
    using diamondLoop_bins [of ?h "[0 ..< ?n]" array "[]" "[]"]
    by (simp only: run fst_conv snd_conv append_Nil)
  then have bs: "bs = map (\<lambda>k. real k + ?c) [0 ..< ?n]"
    by (simp only: np_mean_range)
  have vs: "length vs = ?n"
    using diamondLoop_values [of ?h "[0 ..< ?n]" array "[]" "[]"] run by simp
  have med: "np_median bs = (real ?n - 1) / 2 + ?c"
    unfolding bs using assms by (rule np_median_progression)
  show "fst (snd (slidingDiamond array sideLen))
      = map (\<lambda>k. real k - (real ?n - 1) / 2) [0 ..< ?n]"
    by (simp add: slidingDiamond_def Let_def run med) (simp add: bs)
  show "length (snd (snd (slidingDiamond array sideLen))) = ?n"
    by (simp add: slidingDiamond_def Let_def run vs)
qed

text \<open>
  C5.  For a matrix with at least \<open>sideLen div 2 + 1\<close> rows, \<open>slidingDiamond\<close> returns
  \<open>rows - sideLen div 2\<close> offsets and as many values; the offset at position \<open>k\<close> is
  \<open>k - (n - 1) / 2\<close> for \<open>n\<close> offsets, so that the offsets mirror each other around 0
  and their sum is 0.
\<close>

theorem slidingDiamond_length_and_symmetry:
  assumes "sideLen div 2 + 1 \<le> length array"
  shows "length (fst (snd (slidingDiamond array sideLen))) = length array - sideLen div 2
       \<and> length (snd (snd (slidingDiamond array sideLen))) = length array - sideLen div 2
       \<and> sum_list (fst (snd (slidingDiamond array sideLen))) = 0
       \<and> (\<forall>k < length array - sideLen div 2.
             fst (snd (slidingDiamond array sideLen)) ! (length array - sideLen div 2 - 1 - k)
               = - (fst (snd (slidingDiamond array sideLen)) ! k))"
proof -
  let ?n = "length array - sideLen div 2"
  from assms have n: "0 < ?n" by simp
  note res = slidingDiamond_result [OF n]
  have "fst (snd (slidingDiamond array sideLen)) ! (?n - 1 - k)
      = - (fst (snd (slidingDiamond array sideLen)) ! k)" if "k < ?n" for k
  proof -
    have "real (?n - 1 - k) = real ?n - 1 - real k" using that by (simp add: of_nat_diff)
    then show ?thesis using that by (simp add: res(1) field_simps)
  qed
  then show ?thesis
    by (simp add: res sum_centered)
qed

theorem slidingDiamond_length_and_symmetry_witness:
  "(3::nat) div 2 + 1 \<le> length [[PInf, Fin 1, Fin 2], [Fin 1, Fin 4, NInf], [FNaN, Fin 2, Fin 3]]
   \<and> snd (slidingDiamond [[PInf, Fin 1, Fin 2], [Fin 1, Fin 4, NInf], [FNaN, Fin 2, Fin 3]] 3)
       = ([- (1 / 2), 1 / 2], [Fin 2, Fin 3])
   \<and> sum_list (fst (snd (slidingDiamond
        [[PInf, Fin 1, Fin 2], [Fin 1, Fin 4, NInf], [FNaN, Fin 2, Fin 3]] 3))) = 0"
proof -
  have h: "(3::nat) div 2 + 1 \<le> length [[PInf, Fin 1, Fin 2], [Fin 1, Fin 4, NInf], [FNaN, Fin 2, Fin 3]]"
    by simp
  have "snd (slidingDiamond [[PInf, Fin 1, Fin 2], [Fin 1, Fin 4, NInf], [FNaN, Fin 2, Fin 3]] 3)
       = ([- (1 / 2), 1 / 2], [Fin 2, Fin 3])"
    by (simp add: slidingDiamond_def set_inf_nan_def in_diamond_def isinf_def diamond_def
        nanmean_def np_mean_def np_median_def Let_def upt_rec [of 0] upt_rec [of 1] upt_rec [of 2])
  with h slidingDiamond_length_and_symmetry [OF h] show ?thesis by simp
qed

text \<open>
  C6.  The inputs are not left unchanged.  \<open>slidingDiamond\<close> changes its argument:
  the infinite cells the diamonds cover come back as not a number.  \<open>downSamplePairs\<close>
  changes its argument too: both tables of a sample of the input dictionary come back
  with the column \<open>rType\<close> added.
\<close>

theorem inputs_are_mutated:
  "fst (slidingDiamond [[PInf, Fin 1], [Fin 1, Fin 4]] 2) = [[FNaN, Fin 1], [Fin 1, Fin 4]]
   \<and> fst (downSamplePairs (\<lambda>k. 0)
       [(''A'', [(''cis'', \<lparr>columns = [''pos1'', ''pos2''], rows = [[CInt 0, CInt 20000]]\<rparr>),
                 (''trans'', \<lparr>columns = [''pos1'', ''pos2''],
                              rows = [[CInt 0, CInt 50000]]\<rparr>)])]
       10000)
     = [(''A'', [(''cis'', \<lparr>columns = [''pos1'', ''pos2'', ''rType''],
                            rows = [[CInt 0, CInt 20000, CStr ''cis'']]\<rparr>),
                 (''trans'', \<lparr>columns = [''pos1'', ''pos2'', ''rType''],
                              rows = [[CInt 0, CInt 50000, CStr ''trans'']]\<rparr>)])]"
proof
  show "fst (slidingDiamond [[PInf, Fin 1], [Fin 1, Fin 4]] 2) = [[FNaN, Fin 1], [Fin 1, Fin 4]]"
    by (simp add: slidingDiamond_def set_inf_nan_def in_diamond_def isinf_def diamond_def
        nanmean_def np_mean_def np_median_def Let_def upt_rec [of 0] upt_rec [of 1])
  show "fst (downSamplePairs (\<lambda>k. 0)
       [(''A'', [(''cis'', \<lparr>columns = [''pos1'', ''pos2''], rows = [[CInt 0, CInt 20000]]\<rparr>),
                 (''trans'', \<lparr>columns = [''pos1'', ''pos2''],
                              rows = [[CInt 0, CInt 50000]]\<rparr>)])]
       10000)
     = [(''A'', [(''cis'', \<lparr>columns = [''pos1'', ''pos2'', ''rType''],
                            rows = [[CInt 0, CInt 20000, CStr ''cis'']]\<rparr>),
                 (''trans'', \<lparr>columns = [''pos1'', ''pos2'', ''rType''],
                              rows = [[CInt 0, CInt 50000, CStr ''trans'']]\<rparr>)])]"
    by (simp add: eval_defs)
qed

section \<open>What pileToFrame computes\<close>

lemma pileToFrame_eq:
  assumes "shape pile = [W, W, N]" "length (cells pile) = W * W * N"
  shows "pileToFrame pile
       = Inr \<lparr>shape = [N, W * W],
               cells = map (\<lambda>n. cells pile ! ((n mod (W * W)) * N + n div (W * W)))
                         [0 ..< N * (W * W)]\<rparr>"
  using assms
  by (simp add: pileToFrame_def shape_at_def reshape2_def flatten_def transpose2_def
      power2_eq_square)

lemma pixel_bound: "i < W \<Longrightarrow> j < W \<Longrightarrow> i * W + j < W * (W::nat)"
proof -
  assume "i < W" "j < W"
  then have "i * W + j < i * W + W" by simp
  also have "\<dots> = (i + 1) * W" by simp
  also have "\<dots> \<le> W * W" using \<open>i < W\<close> by (simp add: mult_le_mono1 del: mult_Suc)
  finally show ?thesis .
qed

lemma cell_bound: "k < N \<Longrightarrow> p < P \<Longrightarrow> k * P + p < N * (P::nat)"
proof -
  assume "k < N" "p < P"
  then have "k * P + p < k * P + P" by simp
  also have "\<dots> = (k + 1) * P" by simp
  also have "\<dots> \<le> N * P" using \<open>k < N\<close> by (simp add: mult_le_mono1 del: mult_Suc)
  finally show ?thesis .
qed

lemma cell_div_mod:
  "p < P \<Longrightarrow> (k * P + p) mod P = p" "p < P \<Longrightarrow> (k * P + p) div P = (k::nat)"
  by simp_all

lemma transpose_back:
  assumes "length d = r * c"
  shows "map (\<lambda>n. map (\<lambda>n. d ! ((n mod r) * c + n div r)) [0 ..< c * r] ! ((n mod c) * r + n div c))
           [0 ..< r * c] = d"
proof (rule nth_equalityI)
  show "length (map (\<lambda>n. map (\<lambda>n. d ! ((n mod r) * c + n div r)) [0 ..< c * r] ! ((n mod c) * r + n div c))
           [0 ..< r * c]) = length d"
    using assms by simp
next
  fix n
  assume "n < length (map (\<lambda>n. map (\<lambda>n. d ! ((n mod r) * c + n div r)) [0 ..< c * r] ! ((n mod c) * r + n div c))
           [0 ..< r * c])"
  then have n: "n < r * c" by simp
  then have c: "0 < c" by (cases c) auto
  have q: "n div c < r" using n by (simp add: less_mult_imp_div_less)
  have m: "n mod c < c" using c by simp
  have b: "(n mod c) * r + n div c < c * r" using m q by (rule cell_bound)
  have "(n mod c * r + n div c) mod r = n div c" "(n mod c * r + n div c) div r = n mod c"
    using q by simp_all
  then show "map (\<lambda>n. map (\<lambda>n. d ! ((n mod r) * c + n div r)) [0 ..< c * r] ! ((n mod c) * r + n div c))
           [0 ..< r * c] ! n = d ! n"
    using n b by (simp del: upt_Suc)
qed

text \<open>
  C3.  For a pile of shape \<open>[W, W, N]\<close>, \<open>pileToFrame\<close> returns a table with \<open>N\<close> rows
  and \<open>W * W\<close> columns whose cell in row \<open>k\<close> and column \<open>i * W + j\<close> is the cell
  \<open>pile[i][j][k]\<close>; transposing the table and reshaping it to \<open>[W, W, N]\<close> gives the
  pile back.
\<close>

theorem pileToFrame_layout:
  assumes "shape pile = [W, W, N]" "length (cells pile) = W * W * N"
  shows "\<exists>t. pileToFrame pile = Inr t \<and> shape t = [N, W * W] \<and>
           (\<forall>i < W. \<forall>j < W. \<forall>k < N. at2 t k (i * W + j) = at3 pile i j k) \<and>
           frameToPile W N t = Inr pile"
proof -
  let ?t = "\<lparr>shape = [N, W * W],
             cells = map (\<lambda>n. cells pile ! ((n mod (W * W)) * N + n div (W * W)))
                       [0 ..< N * (W * W)]\<rparr>"
  have run: "pileToFrame pile = Inr ?t" using assms by (rule pileToFrame_eq)
  have cell: "at2 ?t k (i * W + j) = at3 pile i j k" if "i < W" "j < W" "k < N" for i j k
  proof -
    have p: "i * W + j < W * W" using that(1,2) by (rule pixel_bound)
    have b: "k * (W * W) + (i * W + j) < N * (W * W)" using that(3) p by (rule cell_bound)
    have "(k * (W * W) + (i * W + j)) mod (W * W) = i * W + j"
      "(k * (W * W) + (i * W + j)) div (W * W) = k"
      using p by (rule cell_div_mod)+
    then show ?thesis
      using b by (simp add: at2_def at3_def assms(1) del: upt_Suc)
  qed
  have "length (cells pile) = (W * W) * N" using assms(2) by simp
  from transpose_back [OF this] have rt: "frameToPile W N ?t = Inr pile"
    using assms by (simp add: frameToPile_def transpose2_def Let_def mult.commute)
  from run cell rt show ?thesis by simp
qed

theorem pileToFrame_layout_witness:
  "shape \<lparr>shape = [2, 2, 3], cells = [1, 2, 3, 4, 5, 6, 7, 8, 9, 10, 11, 12 :: nat]\<rparr> = [2, 2, 3]
   \<and> length (cells \<lparr>shape = [2, 2, 3], cells = [1, 2, 3, 4, 5, 6, 7, 8, 9, 10, 11, 12 :: nat]\<rparr>)
       = 2 * 2 * 3
   \<and> pileToFrame \<lparr>shape = [2, 2, 3], cells = [1, 2, 3, 4, 5, 6, 7, 8, 9, 10, 11, 12 :: nat]\<rparr>
       = Inr \<lparr>shape = [3, 4], cells = [1, 4, 7, 10, 2, 5, 8, 11, 3, 6, 9, 12]\<rparr>
   \<and> frameToPile 2 3 \<lparr>shape = [3, 4], cells = [1, 4, 7, 10, 2, 5, 8, 11, 3, 6, 9, 12 :: nat]\<rparr>
       = Inr \<lparr>shape = [2, 2, 3], cells = [1, 2, 3, 4, 5, 6, 7, 8, 9, 10, 11, 12]\<rparr>"
proof -
  let ?p = "\<lparr>shape = [2, 2, 3], cells = [1, 2, 3, 4, 5, 6, 7, 8, 9, 10, 11, 12 :: nat]\<rparr>"
  have h: "shape ?p = [2, 2, 3]" "length (cells ?p) = 2 * 2 * 3" by simp_all
  have run: "pileToFrame ?p = Inr \<lparr>shape = [3, 4], cells = [1, 4, 7, 10, 2, 5, 8, 11, 3, 6, 9, 12]\<rparr>"
    by (simp add: pileToFrame_def shape_at_def reshape2_def flatten_def transpose2_def
        upt_conv_Cons)
  from pileToFrame_layout [OF h] run h show ?thesis by auto
qed

section \<open>What assignRegions2d computes\<close>

lemma filter_concat_axis1:
  "map windowsSmallRow
     (filter (\<lambda>p. series_eq (Option.bind (fst p) region) (Option.bind (snd p) region))
        (concat_axis1 ws1 ws2))
   = map joined (filter same_region (zip ws1 ws2))"
  by (induction ws1 ws2 rule: concat_axis1.induct)
     (auto simp: series_eq_def same_region_def joined_def windowsSmallRow_def
        split: option.splits)

text \<open>
  C4.  The table \<open>assignRegions2d\<close> returns holds, in their order, the rows of the
  pairs of windows at the same position whose regions are equal and not null: a pair
  with different regions, a pair with a null region and a pair with two null regions
  give no row, and no returned row has a null region.  This holds for anchor series of
  any lengths and whatever the two collaborators compute.
\<close>

theorem assignRegions2d_same_region:
  "assignRegions2d mk asg window binsize chroms1 positions1 chroms2 positions2 arms
     = map joined (filter same_region
         (zip (assignRegions mk asg window binsize chroms1 positions1 arms)
              (assignRegions mk asg window binsize chroms2 positions2 arms)))
   \<and> (\<forall>row \<in> set (assignRegions2d mk asg window binsize chroms1 positions1 chroms2
                      positions2 arms). region2d row \<noteq> None)"
proof -
  have eq: "assignRegions2d mk asg window binsize chroms1 positions1 chroms2 positions2 arms
     = map joined (filter same_region
         (zip (assignRegions mk asg window binsize chroms1 positions1 arms)
              (assignRegions mk asg window binsize chroms2 positions2 arms)))"
    by (simp add: assignRegions2d_def Let_def filter_concat_axis1)
  have "region2d (joined p) \<noteq> None" if "same_region p" for p :: "'a window \<times> 'a window"
    using that by (auto simp: same_region_def joined_def split: option.splits)
  then show ?thesis
    unfolding eq by auto
qed

theorem assignRegions2d_same_region_witness:
  "assignRegions2d exampleMake exampleAssign 10 5
       [''chr1'', ''chr1'', ''chr1'', ''chr2''] [50, 50, 500, 20]
       [''chr1'', ''chr1'', ''chr1'', ''chr2''] [60, 150, 600, 30]
       [(''chr1'', 0, 100), (''chr1'', 100, 200)]
     = [\<lparr>chrom1 = Some ''chr1'', start1 = Some 40, end1 = Some 60,
         chrom2 = Some ''chr1'', start2 = Some 50, end2 = Some 70, region2d = Some 0\<rparr>]
   \<and> map region (assignRegions exampleMake exampleAssign 10 5
         [''chr1'', ''chr1'', ''chr1'', ''chr2''] [50, 50, 500, 20]
         [(''chr1'', 0, 100), (''chr1'', 100, 200)]) = [Some 0, Some 0, None, None]
   \<and> map region (assignRegions exampleMake exampleAssign 10 5
         [''chr1'', ''chr1'', ''chr1'', ''chr2''] [60, 150, 600, 30]
         [(''chr1'', 0, 100), (''chr1'', 100, 200)]) = [Some 0, Some 1, None, None]"
proof -
  let ?arms = "[(''chr1'', 0, 100), (''chr1'', 100, 200)] :: arm list"
  let ?ws1 = "assignRegions exampleMake exampleAssign 10 5
      [''chr1'', ''chr1'', ''chr1'', ''chr2''] [50, 50, 500, 20] ?arms"
  let ?ws2 = "assignRegions exampleMake exampleAssign 10 5
      [''chr1'', ''chr1'', ''chr1'', ''chr2''] [60, 150, 600, 30] ?arms"
  have r1: "map region ?ws1 = [Some 0, Some 0, None, None]"
    by (simp add: assignRegions_def exampleMake_def exampleAssign_def)
  have r2: "map region ?ws2 = [Some 0, Some 1, None, None]"
    by (simp add: assignRegions_def exampleMake_def exampleAssign_def)
  have "map joined (filter same_region (zip ?ws1 ?ws2))
      = [\<lparr>chrom1 = Some ''chr1'', start1 = Some 40, end1 = Some 60,
          chrom2 = Some ''chr1'', start2 = Some 50, end2 = Some 70, region2d = Some 0\<rparr>]"
    by (simp add: assignRegions_def exampleMake_def exampleAssign_def same_region_def
        joined_def)
  with assignRegions2d_same_region [of exampleMake exampleAssign 10 5
      "[''chr1'', ''chr1'', ''chr1'', ''chr2'']" "[50, 50, 500, 20]"
      "[''chr1'', ''chr1'', ''chr1'', ''chr2'']" "[60, 150, 600, 30]" ?arms] r1 r2
  show ?thesis by simp
qed

section \<open>What getPairingScore computes\<close>

lemma sort_shift: "sort (map (\<lambda>x. x - m) xs) = map (\<lambda>x. x - (m::real)) (sort xs)"
proof (rule properties_for_sort)
  show "mset (map (\<lambda>x. x - m) (sort xs)) = mset (map (\<lambda>x. x - m) xs)"
    by simp
  have "sorted_wrt (\<le>) (sort xs)" by simp
  then have "sorted_wrt (\<lambda>x y. x - m \<le> y - m) (sort xs)"
    by (rule sorted_wrt_mono_rel [rotated]) simp
  then show "sorted (map (\<lambda>x. x - m) (sort xs))"
    by (simp add: sorted_map)
qed

lemma fsub_Fin_simps:
  "fsub (Fin a) (Fin m) = Fin (a - m)" "fsub PInf (Fin m) = PInf" "fsub NInf (Fin m) = NInf"
  "fsub FNaN y = FNaN"
  by (simp_all add: fsub_def)

lemma fsub_Fin_FNaN: "fsub s (Fin m) = FNaN \<longleftrightarrow> s = FNaN"
  by (cases s) (simp_all add: fsub_def)

lemma filter_shift:
  "filter (\<lambda>s. s \<noteq> FNaN) (map (\<lambda>s. fsub s (Fin m)) ss)
     = map (\<lambda>s. fsub s (Fin m)) (filter (\<lambda>s. s \<noteq> FNaN) ss)"
  by (induction ss) (simp_all add: fsub_Fin_FNaN)

lemma finite_part_shift:
  "finite_part (map (\<lambda>s. fsub s (Fin m)) ys) = map (\<lambda>x. x - m) (finite_part ys)"
proof (induction ys)
  case Nil
  then show ?case by simp
next
  case (Cons y ys)
  then show ?case by (cases y) (simp_all add: fsub_Fin_simps)
qed

lemma fsub_Fin_inf:
  "fsub s (Fin m) = NInf \<longleftrightarrow> s = NInf" "fsub s (Fin m) = PInf \<longleftrightarrow> s = PInf"
  by (cases s; simp add: fsub_def)+

lemma fsort_shift:
  "fsort (map (\<lambda>s. fsub s (Fin m)) ys) = map (\<lambda>s. fsub s (Fin m)) (fsort ys)"
  by (simp add: fsort_def finite_part_shift fsub_Fin_inf sort_shift fsub_Fin_simps comp_def)

lemma length_fsort: "FNaN \<notin> set ys \<Longrightarrow> length (fsort ys) = length ys"
proof (induction ys)
  case Nil
  then show ?case by (simp add: fsort_def)
next
  case (Cons y ys)
  then show ?case by (cases y) (simp_all add: fsort_def)
qed

lemma fadd_Fin_cases: "fadd a b = Fin m \<Longrightarrow> \<exists>x y. a = Fin x \<and> b = Fin y \<and> m = x + y"
  by (cases a; cases b) simp_all

lemma fdiv_count_Fin: "fdiv_count z n = Fin m \<Longrightarrow> \<exists>x. z = Fin x \<and> m = x / real n"
  by (cases z) simp_all

lemma fmedian_shift_zero:
  assumes "FNaN \<notin> set ys" "fmedian ys = Fin m"
  shows "fmedian (map (\<lambda>s. fsub s (Fin m)) ys) = Fin 0"
proof -
  let ?sh = "\<lambda>s. fsub s (Fin m)"
  let ?n = "length ys"
  let ?s = "fsort ys"
  from assms(2) have ne: "ys \<noteq> []" by (auto simp: fmedian_def)
  then have n: "0 < ?n" by simp
  have len: "length ?s = ?n" using assms(1) by (rule length_fsort)
  have "?sh s \<noteq> FNaN" if "s \<in> set ys" for s
    using that assms(1) by (auto simp: fsub_Fin_FNaN)
  then have nan: "FNaN \<notin> set (map ?sh ys)" by force
  have k: "?n div 2 < length ?s" "?n div 2 - 1 < length ?s" using n len by arith+
  show ?thesis
  proof (cases "odd ?n")
    case True
    with assms ne have "?s ! (?n div 2) = Fin m" by (simp add: fmedian_def Let_def)
    moreover have "fmedian (map ?sh ys) = ?sh (?s ! (?n div 2))"
      using True ne nan k by (simp add: fmedian_def fsort_shift Let_def)
    ultimately show ?thesis by (simp add: fsub_Fin_simps)
  next
    case False
    with assms ne have "fdiv_count (fadd (?s ! (?n div 2 - 1)) (?s ! (?n div 2))) 2 = Fin m"
      by (simp add: fmedian_def Let_def)
    then obtain z where z: "fadd (?s ! (?n div 2 - 1)) (?s ! (?n div 2)) = Fin z" "m = z / 2"
      by (auto dest: fdiv_count_Fin)
    then obtain x y where xy: "?s ! (?n div 2 - 1) = Fin x" "?s ! (?n div 2) = Fin y" "z = x + y"
      by (auto dest: fadd_Fin_cases)
    have "fmedian (map ?sh ys)
        = fdiv_count (fadd (?sh (?s ! (?n div 2 - 1))) (?sh (?s ! (?n div 2)))) 2"
      using False ne nan k by (simp add: fmedian_def fsort_shift Let_def)
    also have "\<dots> = Fin ((x - m + (y - m)) / 2)"
      by (simp only: xy fsub_Fin_simps fadd.simps fdiv_count.simps) simp
    also have "(x - m + (y - m)) / 2 = 0"
      using xy(3) z(2) by (simp add: field_simps)
    finally show ?thesis .
  qed
qed

lemma fmedian_constant:
  assumes "c = PInf \<or> c = NInf" "\<forall>z \<in> set zs. z = c"
  shows "fmedian zs = (if zs = [] then FNaN else c)"
proof (cases "zs = []")
  case True
  then show ?thesis by (simp add: fmedian_def)
next
  case False
  let ?n = "length zs"
  have n: "0 < ?n" using False by simp
  have nan: "FNaN \<notin> set zs" using assms by auto
  have fp: "finite_part zs = []" using assms by (induction zs) auto
  have s: "fsort zs = replicate ?n c"
  proof -
    have "filter (\<lambda>x. x = c) zs = zs" using assms(2) by (induction zs) auto
    moreover have "filter (\<lambda>x. x = d) zs = []" if "d \<noteq> c" for d
      using assms(2) that by (induction zs) auto
    ultimately show ?thesis using assms(1) by (auto simp: fsort_def fp)
  qed
  have k: "?n div 2 < ?n" "?n div 2 - 1 < ?n" using n by arith+
  show ?thesis
    using False nan k assms(1) by (auto simp: fmedian_def s Let_def)
qed

lemma fsub_inf_cases:
  "c = PInf \<or> c = NInf \<Longrightarrow> fsub s c = FNaN \<or> fsub s c = fneg c"
  by (cases s) (auto simp: fsub_def)

lemma fmedian_normalized_iff:
  "fmedian (filter (\<lambda>s. s \<noteq> FNaN)
      (map (\<lambda>s. fsub s (fmedian (filter (\<lambda>s. s \<noteq> FNaN) ss))) ss)) = Fin 0
   \<longleftrightarrow> (\<exists>m. fmedian (filter (\<lambda>s. s \<noteq> FNaN) ss) = Fin m)"
proof (cases "fmedian (filter (\<lambda>s. s \<noteq> FNaN) ss)")
  case (Fin m)
  have "FNaN \<notin> set (filter (\<lambda>s. s \<noteq> FNaN) ss)" by simp
  from fmedian_shift_zero [OF this Fin] show ?thesis
    by (simp add: Fin filter_shift)
next
  case PInf
  let ?zs = "filter (\<lambda>s. s \<noteq> FNaN) (map (\<lambda>s. fsub s PInf) ss)"
  have "\<forall>z \<in> set ?zs. z = NInf" using fsub_inf_cases [of PInf] by auto
  then have "fmedian ?zs = (if ?zs = [] then FNaN else NInf)"
    by (intro fmedian_constant) simp_all
  then show ?thesis by (simp add: PInf)
next
  case NInf
  let ?zs = "filter (\<lambda>s. s \<noteq> FNaN) (map (\<lambda>s. fsub s NInf) ss)"
  have "\<forall>z \<in> set ?zs. z = PInf" using fsub_inf_cases [of NInf] by auto
  then have "fmedian ?zs = (if ?zs = [] then FNaN else PInf)"
    by (intro fmedian_constant) simp_all
  then show ?thesis by (simp add: NInf)
next
  case FNaN
  have "fsub s FNaN = FNaN" for s by (cases s) (simp_all add: fsub_def)
  then have z: "filter (\<lambda>s. s \<noteq> FNaN) (map (\<lambda>s. fsub s FNaN) ss) = []"
    by (induction ss) simp_all
  show ?thesis unfolding FNaN z by (simp add: fmedian_def)
qed

lemma getPairingScore_scores:
  assumes "shape pile = [W, W, N]" "length (cells pile) = W * W * N"
  shows "\<exists>ss. length ss = length merged
        \<and> getPairingScore func False pile merged = Inr (map2 scoredRow (map snd merged) ss)
        \<and> getPairingScore func True pile merged
            = Inr (map2 scoredRow (map snd merged)
                (map (\<lambda>s. fsub s (fmedian (filter (\<lambda>s. s \<noteq> FNaN) ss))) ss))"
proof -
  obtain t where t: "pileToFrame pile = Inr t"
    using pileToFrame_eq [OF assms] by blast
  let ?summarized = "map func (rows_of t)"
  let ?ss = "map (\<lambda>(l, r). if l < length ?summarized then ?summarized ! l else FNaN) merged"
  have z: "map (\<lambda>(r, s). scoredRow r s) (map (\<lambda>(l, r). (r, g l)) ms)
      = map2 scoredRow (map snd ms) (map (\<lambda>(l, r). g l) ms)"
    for g :: "nat \<Rightarrow> fval" and ms :: "(nat \<times> bin_region) list"
    by (induction ms) auto
  have s: "map snd (map (\<lambda>(l, r). (r, g l)) ms) = map (\<lambda>(l, r). g l) ms"
    for g :: "nat \<Rightarrow> fval" and ms :: "(nat \<times> bin_region) list"
    by (induction ms) auto
  have c: "map (\<lambda>(r, s). (r, h s)) (map (\<lambda>(l, r). (r, g l)) ms)
      = map (\<lambda>(l, r). (r, h (g l))) ms"
    for g :: "nat \<Rightarrow> fval" and h :: "fval \<Rightarrow> fval" and ms :: "(nat \<times> bin_region) list"
    by (induction ms) auto
  have "getPairingScore func False pile merged = Inr (map2 scoredRow (map snd merged) ?ss)"
    by (simp only: getPairingScore_def t py_bind_simps Let_def if_False z)
  moreover have "getPairingScore func True pile merged
      = Inr (map2 scoredRow (map snd merged)
          (map (\<lambda>s. fsub s (fmedian (filter (\<lambda>s. s \<noteq> FNaN) ?ss))) ?ss))"
    by (simp only: getPairingScore_def t py_bind_simps Let_def if_True s c z)
      (simp add: split_def comp_def)
  moreover have "length ?ss = length merged" by simp
  ultimately show ?thesis by blast
qed

lemma PairingScore_map2:
  "length rs = length ss \<Longrightarrow> map PairingScore (map2 scoredRow rs ss) = ss"
  by (induction rs ss rule: list_induct2) (simp_all add: scoredRow_def)

lemmas score_defs = getPairingScore_def pileToFrame_def shape_at_def reshape2_def flatten_def
  transpose2_def rows_of_def nanmean_def fmedian_def fsort_def fsub_def scoredRow_def
  upt_conv_Cons Let_def

text \<open>
  C7 (as amended).  For a pile of shape \<open>[W, W, N]\<close>, \<open>getPairingScore\<close> returns with
  and without normalisation, with as many rows.  A score that is not a number without
  normalisation is not a number with it.  The median of the normalised scores that are
  numbers is 0 when the median of the scores that are numbers is finite, which needs
  such a score, and only then: infinite scores do no harm as long as the median is
  finite.  Floats are real numbers here, so the median is 0 exactly.
\<close>

theorem getPairingScore_median_zero:
  assumes "shape pile = [W, W, N]" "length (cells pile) = W * W * N"
  shows "\<exists>raw out.
           getPairingScore func False pile merged = Inr raw \<and>
           getPairingScore func True pile merged = Inr out \<and>
           length out = length raw \<and>
           (\<forall>k < length raw. PairingScore (raw ! k) = FNaN \<longrightarrow> PairingScore (out ! k) = FNaN) \<and>
           (fmedian (filter (\<lambda>s. s \<noteq> FNaN) (map PairingScore out)) = Fin 0
              \<longleftrightarrow> (\<exists>m. fmedian (filter (\<lambda>s. s \<noteq> FNaN) (map PairingScore raw)) = Fin m))"
proof -
  from getPairingScore_scores [OF assms, of merged func] obtain ss where
    len: "length ss = length merged"
    and raw: "getPairingScore func False pile merged = Inr (map2 scoredRow (map snd merged) ss)"
    and out: "getPairingScore func True pile merged
        = Inr (map2 scoredRow (map snd merged)
            (map (\<lambda>s. fsub s (fmedian (filter (\<lambda>s. s \<noteq> FNaN) ss))) ss))"
    by blast
  let ?m = "fmedian (filter (\<lambda>s. s \<noteq> FNaN) ss)"
  let ?raw = "map2 scoredRow (map snd merged) ss"
  let ?out = "map2 scoredRow (map snd merged) (map (\<lambda>s. fsub s ?m) ss)"
  have praw: "map PairingScore ?raw = ss"
    using len by (intro PairingScore_map2) simp
  have pout: "map PairingScore ?out = map (\<lambda>s. fsub s ?m) ss"
    using len by (intro PairingScore_map2) simp
  have lraw: "length ?raw = length ss" and lout: "length ?out = length ss"
    using len by simp_all
  have nan: "PairingScore (?out ! k) = FNaN"
    if "k < length ?raw" "PairingScore (?raw ! k) = FNaN" for k
  proof -
    from that(1) have k: "k < length ss" using lraw by simp
    have "PairingScore (?raw ! k) = map PairingScore ?raw ! k"
      using k lraw by (simp only: nth_map)
    then have "ss ! k = FNaN" using that(2) praw by simp
    moreover have "PairingScore (?out ! k) = map PairingScore ?out ! k"
      using k lout by (simp only: nth_map)
    ultimately show ?thesis using k by (simp only: pout nth_map fsub_Fin_simps(4))
  qed
  have med: "fmedian (filter (\<lambda>s. s \<noteq> FNaN) (map PairingScore ?out)) = Fin 0
      \<longleftrightarrow> (\<exists>m. fmedian (filter (\<lambda>s. s \<noteq> FNaN) (map PairingScore ?raw)) = Fin m)"
    unfolding praw pout by (rule fmedian_normalized_iff)
  from raw out lraw lout nan med show ?thesis
    by (intro exI [of _ ?raw] exI [of _ ?out] conjI) simp_all
qed

theorem getPairingScore_median_zero_witness:
  "shape examplePile = [1, 1, 4] \<and> length (cells examplePile) = 1 * 1 * 4 \<and>
   (\<exists>raw out.
       getPairingScore nanmean False examplePile exampleMerged = Inr raw \<and>
       getPairingScore nanmean True examplePile exampleMerged = Inr out \<and>
       length out = length raw \<and>
       (\<forall>k < length raw. PairingScore (raw ! k) = FNaN \<longrightarrow> PairingScore (out ! k) = FNaN) \<and>
       (fmedian (filter (\<lambda>s. s \<noteq> FNaN) (map PairingScore out)) = Fin 0
          \<longleftrightarrow> (\<exists>m. fmedian (filter (\<lambda>s. s \<noteq> FNaN) (map PairingScore raw)) = Fin m))) \<and>
   getPairingScore nanmean False examplePile exampleMerged
     = Inr [\<lparr>r_chrom = ''chr1'', r_start = 0, r_end = 10, PairingScore = PInf\<rparr>,
          \<lparr>r_chrom = ''chr1'', r_start = 10, r_end = 20, PairingScore = FNaN\<rparr>,
          \<lparr>r_chrom = ''chr1'', r_start = 20, r_end = 30, PairingScore = Fin 3\<rparr>,
          \<lparr>r_chrom = ''chr1'', r_start = 30, r_end = 40, PairingScore = Fin 5\<rparr>] \<and>
   getPairingScore nanmean True examplePile exampleMerged
     = Inr [\<lparr>r_chrom = ''chr1'', r_start = 0, r_end = 10, PairingScore = PInf\<rparr>,
          \<lparr>r_chrom = ''chr1'', r_start = 10, r_end = 20, PairingScore = FNaN\<rparr>,
          \<lparr>r_chrom = ''chr1'', r_start = 20, r_end = 30, PairingScore = Fin (- 2)\<rparr>,
          \<lparr>r_chrom = ''chr1'', r_start = 30, r_end = 40, PairingScore = Fin 0\<rparr>] \<and>
   fmedian (filter (\<lambda>s. s \<noteq> FNaN) [PInf, FNaN, Fin 3, Fin 5]) = Fin 5 \<and>
   fmedian (filter (\<lambda>s. s \<noteq> FNaN) [PInf, FNaN, Fin (- 2), Fin 0]) = Fin 0"
proof -
  have h: "shape examplePile = [1, 1, 4]" "length (cells examplePile) = 1 * 1 * 4"
    by (simp_all add: examplePile_def)
  have raw: "getPairingScore nanmean False examplePile exampleMerged
     = Inr [\<lparr>r_chrom = ''chr1'', r_start = 0, r_end = 10, PairingScore = PInf\<rparr>,
          \<lparr>r_chrom = ''chr1'', r_start = 10, r_end = 20, PairingScore = FNaN\<rparr>,
          \<lparr>r_chrom = ''chr1'', r_start = 20, r_end = 30, PairingScore = Fin 3\<rparr>,
          \<lparr>r_chrom = ''chr1'', r_start = 30, r_end = 40, PairingScore = Fin 5\<rparr>]"
    by (simp add: examplePile_def exampleMerged_def score_defs)
  have out: "getPairingScore nanmean True examplePile exampleMerged
     = Inr [\<lparr>r_chrom = ''chr1'', r_start = 0, r_end = 10, PairingScore = PInf\<rparr>,
          \<lparr>r_chrom = ''chr1'', r_start = 10, r_end = 20, PairingScore = FNaN\<rparr>,
          \<lparr>r_chrom = ''chr1'', r_start = 20, r_end = 30, PairingScore = Fin (- 2)\<rparr>,
          \<lparr>r_chrom = ''chr1'', r_start = 30, r_end = 40, PairingScore = Fin 0\<rparr>]"
    by (simp add: examplePile_def exampleMerged_def score_defs)
  have m1: "fmedian (filter (\<lambda>s. s \<noteq> FNaN) [PInf, FNaN, Fin 3, Fin 5]) = Fin 5"
    by (simp add: fmedian_def fsort_def)
  have m2: "fmedian (filter (\<lambda>s. s \<noteq> FNaN) [PInf, FNaN, Fin (- 2), Fin 0]) = Fin 0"
    by (simp add: fmedian_def fsort_def)
  from getPairingScore_median_zero [OF h, of nanmean exampleMerged] h raw out m1 m2
  show ?thesis by (intro conjI) assumption+
qed

text \<open>
  With an infinite median the normalised median is not 0: with the scores
  \<open>inf, inf, 3\<close> the median is infinite, the normalised scores are \<open>nan, nan, -inf\<close>, and the median
  of those that are numbers is \<open>-inf\<close>, not 0.
\<close>

theorem getPairingScore_infinite_score_counterexample:
  "getPairingScore nanmean False
       \<lparr>shape = [1, 1, 3], cells = [PInf, PInf, Fin 3]\<rparr> (take 3 exampleMerged)
     = Inr [\<lparr>r_chrom = ''chr1'', r_start = 0, r_end = 10, PairingScore = PInf\<rparr>,
          \<lparr>r_chrom = ''chr1'', r_start = 10, r_end = 20, PairingScore = PInf\<rparr>,
          \<lparr>r_chrom = ''chr1'', r_start = 20, r_end = 30, PairingScore = Fin 3\<rparr>] \<and>
   getPairingScore nanmean True
       \<lparr>shape = [1, 1, 3], cells = [PInf, PInf, Fin 3]\<rparr> (take 3 exampleMerged)
     = Inr [\<lparr>r_chrom = ''chr1'', r_start = 0, r_end = 10, PairingScore = FNaN\<rparr>,
          \<lparr>r_chrom = ''chr1'', r_start = 10, r_end = 20, PairingScore = FNaN\<rparr>,
          \<lparr>r_chrom = ''chr1'', r_start = 20, r_end = 30, PairingScore = NInf\<rparr>] \<and>
   fmedian (filter (\<lambda>s. s \<noteq> FNaN) [FNaN, FNaN, NInf]) = NInf"
  by (simp add: exampleMerged_def score_defs)

section \<open>What getExpected computes\<close>









end
